theory Spec2Isabelle
  imports Complex_Main
begin

section \<open>JavaScript string primitives\<close>

text \<open>
  Strings are modelled as lists of 8-bit characters. Hostnames and allowlist patterns are
  ASCII (internationalised names reach the code in their punycode form), so
  \<open>toLowerCase\<close> folds the letters A-Z and \<open>trim\<close> strips the ASCII white space and
  line terminators; the non-ASCII white space that \<open>String.prototype.trim\<close> also strips
  cannot occur in this representation.
\<close>

definition lowerChar :: "char \<Rightarrow> char" where
  "lowerChar c =
     (case map_of (zip ''ABCDEFGHIJKLMNOPQRSTUVWXYZ'' ''abcdefghijklmnopqrstuvwxyz'') c of
        Some l \<Rightarrow> l
      | None \<Rightarrow> c)"

definition toLowerCase :: "string \<Rightarrow> string" where
  "toLowerCase s = map lowerChar s"

definition isWhitespace :: "char \<Rightarrow> bool" where
  "isWhitespace c =
     (c = CHR '' '' \<or> c = CHR 0x09 \<or> c = CHR 0x0A \<or> c = CHR 0x0B \<or> c = CHR 0x0C \<or> c = CHR 0x0D)"

definition trim :: "string \<Rightarrow> string" where
  "trim s = rev (dropWhile isWhitespace (rev (dropWhile isWhitespace s)))"

text \<open>\<open>s.split(sep)\<close> for a one-character separator: \<open>"".split(",")\<close> is \<open>[""]\<close>.\<close>

fun split :: "char \<Rightarrow> string \<Rightarrow> string list" where
  "split sep [] = [[]]"
| "split sep (c # cs) =
     (if c = sep then [] # split sep cs
      else (case split sep cs of
              [] \<Rightarrow> [[c]]
            | w # ws \<Rightarrow> (c # w) # ws))"

text \<open>\<open>xs.join(sep)\<close>.\<close>

fun join :: "string \<Rightarrow> string list \<Rightarrow> string" where
  "join sep [] = []"
| "join sep [x] = x"
| "join sep (x # y # ys) = x @ sep @ join sep (y # ys)"

definition startsWith :: "string \<Rightarrow> string \<Rightarrow> bool" where
  "startsWith s p = (take (length p) s = p)"

definition endsWith :: "string \<Rightarrow> string \<Rightarrow> bool" where
  "endsWith s p = (length p \<le> length s \<and> drop (length s - length p) s = p)"

text \<open>\<open>s.includes("*")\<close>, for a one-character needle.\<close>

definition includesChar :: "string \<Rightarrow> char \<Rightarrow> bool" where
  "includesChar s c = (c \<in> set s)"

text \<open>
  The idiom \<open>str.split(",").map(s => s.trim()).filter(Boolean)\<close>, which every allowlist
  function of the repository uses to parse a comma-separated list: \<open>Boolean\<close> drops the
  empty strings.
\<close>

definition parseList :: "string \<Rightarrow> string list" where
  "parseList str = filter (\<lambda>s. s \<noteq> []) (map trim (split (CHR '','') str))"

text \<open>
  What \<open>parseList\<close> returns: non-empty strings without a comma that neither start nor end
  with white space.
\<close>

definition token :: "string \<Rightarrow> bool" where
  "token t = (t \<noteq> [] \<and> CHR '','' \<notin> set t \<and> \<not> isWhitespace (hd t) \<and> \<not> isWhitespace (last t))"

section \<open>lib/domainFilter.js\<close>

text \<open>
  A per-feature section of the configuration, \<open>config[featureName]\<close>. The fields the
  policy reads are \<open>enabled\<close> and \<open>whitelist\<close> (which may be undefined); every other
  parameter of a feature (preset, noise level, ...) lives in the record extension.
\<close>

record feature =
  f_enabled :: bool
  f_whitelist :: "string option"

text \<open>
  The \<open>proxy\<close> section: a profile \<open>{name, host, port, scheme, remoteDNS}\<close> (its optional
  \<open>location\<close> is left out), a route \<open>{pattern, profile}\<close>, and the section itself.
  Field names carry a prefix where the plain name would clash.
\<close>

record proxyProfile =
  p_name :: string
  p_host :: string
  p_port :: nat
  p_scheme :: string
  p_remoteDNS :: bool

record route =
  r_pattern :: string
  r_profile :: string

record proxy =
  proxy_enabled :: bool
  activeProfile :: "string option"
  profiles :: "proxyProfile list"
  domainRoutes :: "route list"
  bypassList :: "string list"

text \<open>
  The configuration object. \<open>config[featureName]\<close> is \<open>features cfg featureName\<close>,
  undefined for a name that is no section; sections the model does not read
  (\<open>notifications\<close>) live in the record extension.
\<close>

record 'f config =
  enabled :: bool
  globalWhitelist :: string
  features :: "string \<Rightarrow> 'f feature_scheme option"
  proxy :: proxy

text \<open>\<open>DomainFilter.matchesPattern(hostname, pattern)\<close>.\<close>

definition matchesPattern :: "string \<Rightarrow> string \<Rightarrow> bool" where
  "matchesPattern hostname0 pattern0 =
     (let hostname = toLowerCase hostname0;
          pattern = toLowerCase pattern0
      in
        if hostname = pattern then True
        else if endsWith pattern ''.*''
                \<and> startsWith hostname (take (length pattern - 2) pattern @ ''.'') then True
        else if startsWith pattern ''*.''
                \<and> (hostname = drop 2 pattern \<or> endsWith hostname (''.'' @ drop 2 pattern)) then True
        else if \<not> startsWith pattern ''*.''
                \<and> (startsWith pattern ''*'' \<and> \<not> startsWith pattern ''*.'')
                \<and> (hostname = drop 1 pattern \<or> endsWith hostname (''.'' @ drop 1 pattern)) then True
        else if \<not> includesChar pattern (CHR ''*'') \<and> hostname = ''www.'' @ pattern then True
        else False)"

text \<open>
  The generic wildcard of the specification's Domain Matcher (rule 5), which the README
  documents as \<open>*pattern*\<close> and \<open>isDomainWhitelisted\<close> in content-scripts/injector.js
  implements: every regular-expression metacharacter of the pattern except \<open>*\<close> is escaped,
  each \<open>*\<close> becomes \<open>.*\<close>, and the expression is anchored at both ends. So a character
  of the pattern other than \<open>*\<close> matches itself, and \<open>*\<close> matches any run of characters
  that are no line terminators. \<open>wildcardRegexTest pattern s\<close> is
  \<open>new RegExp("^" + escapedPattern + "$").test(s)\<close>.
\<close>

definition lineTerminator :: "char \<Rightarrow> bool" where
  "lineTerminator c = (c = CHR 0x0A \<or> c = CHR 0x0D)"

fun wildcardRegexTest :: "string \<Rightarrow> string \<Rightarrow> bool" where
  "wildcardRegexTest [] s = (s = [])"
| "wildcardRegexTest (p # ps) s =
     (if p = CHR ''*''
      then list_ex (\<lambda>k. \<not> list_ex lineTerminator (take k s) \<and> wildcardRegexTest ps (drop k s))
             [0..<Suc (length s)]
      else (case s of
              [] \<Rightarrow> False
            | c # cs \<Rightarrow> c = p \<and> wildcardRegexTest ps cs))"

text \<open>
  The generic wildcard as a matcher of its own: the test
  \<open>normalizedPattern.includes("*") && !normalizedPattern.endsWith(".*") &&
  !normalizedPattern.startsWith("*.") && !hasOnlyLeadingWildcard\<close> of injector.js says when a
  pattern is one, on the lower-cased pattern.
\<close>

definition genericWildcardPattern :: "string \<Rightarrow> bool" where
  "genericWildcardPattern pattern0 =
     (let pattern = toLowerCase pattern0;
          hasOnlyLeadingWildcard =
            (startsWith pattern ''*'' \<and> \<not> startsWith pattern ''*.''
             \<and> \<not> includesChar (drop 1 pattern) (CHR ''*''))
      in includesChar pattern (CHR ''*'') \<and> \<not> endsWith pattern ''.*''
         \<and> \<not> startsWith pattern ''*.'' \<and> \<not> hasOnlyLeadingWildcard)"

text \<open>\<open>DomainFilter.isWhitelisted(hostname, whitelistString)\<close>.\<close>

definition isWhitelisted :: "string \<Rightarrow> string \<Rightarrow> bool" where
  "isWhitelisted hostname whitelistString =
     (if whitelistString = [] \<or> trim whitelistString = [] then False
      else list_ex (matchesPattern hostname) (parseList whitelistString))"

text \<open>
  \<open>DomainFilter.extractHostname(url)\<close>. The browser's URL parser is a parameter:
  \<open>parseURL url\<close> is \<open>None\<close> where \<open>new URL(url)\<close> throws and the \<open>hostname\<close> of the parsed
  URL otherwise; the function turns the exception into \<open>null\<close>.
\<close>

definition extractHostname :: "(string \<Rightarrow> string option) \<Rightarrow> string \<Rightarrow> string option" where
  "extractHostname parseURL url = parseURL url"

text \<open>JavaScript truthiness of a value that is a string, \<open>null\<close> or \<open>undefined\<close>.\<close>

definition truthy :: "string option \<Rightarrow> bool" where
  "truthy v = (case v of None \<Rightarrow> False | Some s \<Rightarrow> s \<noteq> [])"

text \<open>\<open>DomainFilter.shouldActivateFeature(url, featureName)\<close>, on \<open>this.config\<close>.\<close>

definition shouldActivateFeature ::
  "(string \<Rightarrow> string option) \<Rightarrow> ('f, 'z) config_scheme \<Rightarrow> string \<Rightarrow> string \<Rightarrow> bool" where
  "shouldActivateFeature parseURL cfg url featureName =
     (if \<not> enabled cfg then False
      else case features cfg featureName of
        None \<Rightarrow> False
      | Some feat \<Rightarrow>
          if \<not> f_enabled feat then False
          else (case extractHostname parseURL url of
            None \<Rightarrow> False
          | Some hostname \<Rightarrow>
              if hostname = [] then False
              else if isWhitelisted hostname (globalWhitelist cfg) then False
              else let featureWhitelist = (case f_whitelist feat of None \<Rightarrow> [] | Some w \<Rightarrow> w)
                in if isWhitelisted hostname featureWhitelist then False
                   else True))"

text \<open>\<open>DomainFilter.isDomainInWhitelist(domain, whitelistString)\<close>.\<close>

definition isDomainInWhitelist :: "string \<Rightarrow> string \<Rightarrow> bool" where
  "isDomainInWhitelist domain whitelistString =
     (if whitelistString = [] \<or> domain = [] then False
      else list_ex (\<lambda>d. toLowerCase d = toLowerCase domain) (parseList whitelistString))"

text \<open>\<open>DomainFilter.addDomainToWhitelist(domain, whitelistString)\<close>.\<close>

definition addDomainToWhitelist :: "string \<Rightarrow> string \<Rightarrow> string" where
  "addDomainToWhitelist domain whitelistString =
     (if domain = [] then whitelistString
      else if isDomainInWhitelist domain whitelistString then whitelistString
      else let entry = ''*.'' @ domain in
        if whitelistString = [] \<or> trim whitelistString = [] then entry
        else trim whitelistString @ '', '' @ entry)"

text \<open>\<open>DomainFilter.removeDomainFromWhitelist(domain, whitelistString)\<close>.\<close>

definition removeDomainFromWhitelist :: "string \<Rightarrow> string \<Rightarrow> string" where
  "removeDomainFromWhitelist domain whitelistString =
     (if domain = [] \<or> whitelistString = [] then whitelistString
      else let domains = parseList whitelistString;
               filtered = filter (\<lambda>d.
                 let normalized = toLowerCase d;
                     targetDomain = toLowerCase domain
                 in normalized \<noteq> targetDomain \<and> normalized \<noteq> ''*.'' @ targetDomain) domains
           in join '', '' filtered)"

section \<open>lib/config.js\<close>

text \<open>
  \<open>mergeWhitelists(defaultWhitelist, userWhitelist)\<close>. Either argument may be undefined
  (\<open>None\<close>); \<open>x || ""\<close> turns that into the empty string. The \<open>for\<close> loop that pushes
  onto \<open>merged\<close> is a fold over \<open>defaultEntries\<close>, and the \<open>Set\<close> of lower-cased user
  entries is only asked for membership.
\<close>

definition orEmpty :: "string option \<Rightarrow> string" where
  "orEmpty v = (case v of None \<Rightarrow> [] | Some s \<Rightarrow> s)"

definition mergeWhitelists :: "string option \<Rightarrow> string option \<Rightarrow> string" where
  "mergeWhitelists defaultWhitelist userWhitelist =
     (let defaultEntries = parseList (orEmpty defaultWhitelist);
          userEntries = parseList (orEmpty userWhitelist);
          userEntriesLower = map toLowerCase userEntries;
          merged = fold (\<lambda>entry merged.
                     if toLowerCase entry \<notin> set userEntriesLower then merged @ [entry] else merged)
                   defaultEntries userEntries
      in join '', '' merged)"

section \<open>lib/proxy.js\<close>

text \<open>
  \<open>removeProxyProfile(profileName)\<close>, as the transformation of the configuration between
  \<open>loadConfig()\<close> and \<open>saveConfig(config)\<close>. The three assignments to \<open>config.proxy\<close>
  are applied in the order of the source.
\<close>

definition removeProxyProfile :: "string \<Rightarrow> ('f, 'z) config_scheme \<Rightarrow> ('f, 'z) config_scheme" where
  "removeProxyProfile profileName config0 =
     (let profiles0 = profiles (proxy config0);
          config1 = config0\<lparr>proxy := (proxy config0)
                      \<lparr>profiles := filter (\<lambda>p. p_name p \<noteq> profileName) profiles0\<rparr>\<rparr>;
          config2 = (if activeProfile (proxy config1) = Some profileName
                     then config1\<lparr>proxy := (proxy config1)
                            \<lparr>proxy_enabled := False, activeProfile := None\<rparr>\<rparr>
                     else config1);
          routes = domainRoutes (proxy config2)
      in config2\<lparr>proxy := (proxy config2)
           \<lparr>domainRoutes := filter (\<lambda>r. r_profile r \<noteq> profileName) routes\<rparr>\<rparr>)"

section \<open>background.js: the Turnstile bypass state\<close>

text \<open>
  \<open>turnstileTimestamps\<close> is a plain object (\<open>{}\<close>) used as a dictionary from hostname to
  the \<open>Date.now()\<close> reading of the detection, in milliseconds. The map \<open>timestamps\<close> holds
  its own properties. Readings are integers, which the numbers of JavaScript represent
  exactly in this range. Every call of \<open>Date.now()\<close> is an explicit argument of the
  function that makes it, so that two readings within one handler may differ.
\<close>

type_synonym timestamps = "string \<rightharpoonup> int"

text \<open>
  \<open>turnstileTimestamps[hostname]\<close> reads the own property when there is one, and otherwise
  the property that a plain object inherits from \<open>Object.prototype\<close>: a function, or
  \<open>Object.prototype\<close> itself for \<open>__proto__\<close>. Only a key that is neither reads as
  \<open>undefined\<close>. \<open>objectPrototypeKeys\<close> are the property names of \<open>Object.prototype\<close>.
\<close>

datatype property = Undefined | Timestamp int | Inherited

definition objectPrototypeKeys :: "string list" where
  "objectPrototypeKeys =
     [''constructor'', ''__proto__'', ''hasOwnProperty'', ''isPrototypeOf'',
      ''propertyIsEnumerable'', ''toLocaleString'', ''toString'', ''valueOf'',
      ''__defineGetter__'', ''__defineSetter__'', ''__lookupGetter__'', ''__lookupSetter__'']"

definition readTimestamp :: "timestamps \<Rightarrow> string \<Rightarrow> property" where
  "readTimestamp ts hostname =
     (case ts hostname of
        Some t \<Rightarrow> Timestamp t
      | None \<Rightarrow> if hostname \<in> set objectPrototypeKeys then Inherited else Undefined)"

text \<open>
  A number that the lookups compute: an integer, or \<open>NaN\<close>, which is what subtracting an
  inherited function or object from a reading gives.
\<close>

datatype jsnumber = Num int | NaN

definition TURNSTILE_BYPASS_TTL_MS :: int where
  "TURNSTILE_BYPASS_TTL_MS = 3 * 60 * 1000"

record bypass =
  active :: bool
  remainingMs :: jsnumber

record parentBypass = bypass +
  matchedDomain :: "string option"

record tabInfo =
  tab_url :: "string option"
  tab_id :: "int option"

record sender =
  sender_tab :: "tabInfo option"

record request =
  req_hostname :: "string option"

text \<open>\<open>getHostnameFromUrl(url)\<close>, with the URL parser as for \<open>extractHostname\<close>.\<close>

definition getHostnameFromUrl :: "(string \<Rightarrow> string option) \<Rightarrow> string \<Rightarrow> string option" where
  "getHostnameFromUrl parseURL url = parseURL url"

text \<open>
  \<open>resolveTabHostname(sender, fallbackHostname)\<close>; the sender itself may be undefined.
\<close>

definition resolveTabHostname ::
  "(string \<Rightarrow> string option) \<Rightarrow> sender option \<Rightarrow> string option \<Rightarrow> string option" where
  "resolveTabHostname parseURL sndr fallbackHostname =
     (case sndr of
        None \<Rightarrow> fallbackHostname
      | Some s \<Rightarrow>
          (case sender_tab s of
             None \<Rightarrow> fallbackHostname
           | Some t \<Rightarrow>
               if truthy (tab_url t) then
                 (let tabHostname = getHostnameFromUrl parseURL (orEmpty (tab_url t))
                  in if truthy tabHostname then tabHostname else fallbackHostname)
               else fallbackHostname))"

text \<open>\<open>pruneExpiredTurnstileEntries(now)\<close>: the loop deletes every expired key.\<close>

definition pruneExpiredTurnstileEntries :: "int \<Rightarrow> timestamps \<Rightarrow> timestamps" where
  "pruneExpiredTurnstileEntries now ts =
     (\<lambda>domain. case ts domain of
        None \<Rightarrow> None
      | Some t \<Rightarrow> if now - t \<ge> TURNSTILE_BYPASS_TTL_MS then None else Some t)"

text \<open>
  \<open>getExactTurnstileBypass(hostname)\<close>, with its \<open>Date.now()\<close> reading \<open>now\<close>; it returns
  the answer and the dictionary. \<open>!timestamp\<close> holds for \<open>undefined\<close> and for the number 0.
  An inherited property is truthy; \<open>age = now - timestamp\<close> is then \<open>NaN\<close>, the test
  \<open>age >= TURNSTILE_BYPASS_TTL_MS\<close> fails, and the answer is active with the remaining time
  \<open>NaN\<close>. \<open>delete\<close> removes the own property.
\<close>

definition getExactTurnstileBypass ::
  "string option \<Rightarrow> int \<Rightarrow> timestamps \<Rightarrow> bypass \<times> timestamps" where
  "getExactTurnstileBypass hostname now ts =
     (case hostname of
        None \<Rightarrow> (\<lparr>active = False, remainingMs = Num 0\<rparr>, ts)
      | Some h \<Rightarrow>
          if h = [] then (\<lparr>active = False, remainingMs = Num 0\<rparr>, ts)
          else (case readTimestamp ts h of
            Undefined \<Rightarrow> (\<lparr>active = False, remainingMs = Num 0\<rparr>, ts)
          | Inherited \<Rightarrow> (\<lparr>active = True, remainingMs = NaN\<rparr>, ts)
          | Timestamp timestamp \<Rightarrow>
              if timestamp = 0 then (\<lparr>active = False, remainingMs = Num 0\<rparr>, ts)
              else let age = now - timestamp in
                if age \<ge> TURNSTILE_BYPASS_TTL_MS
                then (\<lparr>active = False, remainingMs = Num 0\<rparr>, ts(h := None))
                else (\<lparr>active = True, remainingMs = Num (TURNSTILE_BYPASS_TTL_MS - age)\<rparr>, ts)))"

text \<open>
  The \<open>for\<close> loop of \<open>getTurnstileBypassIncludingParents\<close>, from index \<open>i\<close> on;
  \<open>nowAt i\<close> is the \<open>Date.now()\<close> reading of the lookup in iteration \<open>i\<close>.
\<close>

function parentsLoop ::
  "string list \<Rightarrow> (nat \<Rightarrow> int) \<Rightarrow> nat \<Rightarrow> timestamps \<Rightarrow> parentBypass \<times> timestamps" where
  "parentsLoop labels nowAt i ts =
     (if i < length labels then
        (let domain = join ''.'' (drop i labels);
             (bypass, ts') = getExactTurnstileBypass (Some domain) (nowAt i) ts
         in if active bypass
            then (\<lparr>active = True, remainingMs = remainingMs bypass, matchedDomain = Some domain\<rparr>, ts')
            else parentsLoop labels nowAt (i + 1) ts')
      else (\<lparr>active = False, remainingMs = Num 0, matchedDomain = None\<rparr>, ts))"
  by pat_completeness auto
termination
  by (relation "measure (\<lambda>(labels, nowAt, i, ts). length labels - i)") auto

declare parentsLoop.simps [simp del]

text \<open>
  \<open>getTurnstileBypassIncludingParents(hostname)\<close>: \<open>nowPrune\<close> is the reading of the
  pruning pass, \<open>nowAt\<close> those of the loop.
\<close>

definition getTurnstileBypassIncludingParents ::
  "string option \<Rightarrow> int \<Rightarrow> (nat \<Rightarrow> int) \<Rightarrow> timestamps \<Rightarrow> parentBypass \<times> timestamps" where
  "getTurnstileBypassIncludingParents hostname nowPrune nowAt ts =
     (if \<not> truthy hostname then (\<lparr>active = False, remainingMs = Num 0, matchedDomain = None\<rparr>, ts)
      else let ts1 = pruneExpiredTurnstileEntries nowPrune ts;
               labels = split (CHR ''.'') (orEmpty hostname)
           in parentsLoop labels nowAt 0 ts1)"

text \<open>
  Notions for stating facts about the loop: the label suffix that iteration \<open>i\<close> looks
  up; whether \<open>domain\<close> has a detection of its own in \<open>ts\<close> that is unexpired at the
  reading \<open>now\<close> (\<open>activeAt\<close>); and whether a lookup of \<open>domain\<close> at \<open>now\<close> answers active
  (\<open>lookupActiveAt\<close>), which it also does for an inherited property. The last definition
  says that no inherited property name is an own key of the dictionary.
\<close>

definition suffixDomain :: "string list \<Rightarrow> nat \<Rightarrow> string" where
  "suffixDomain labels i = join ''.'' (drop i labels)"

definition activeAt :: "timestamps \<Rightarrow> int \<Rightarrow> string \<Rightarrow> bool" where
  "activeAt ts now domain =
     (domain \<noteq> [] \<and>
      (case ts domain of
         None \<Rightarrow> False
       | Some t \<Rightarrow> t \<noteq> 0 \<and> now - t < TURNSTILE_BYPASS_TTL_MS))"

definition lookupActiveAt :: "timestamps \<Rightarrow> int \<Rightarrow> string \<Rightarrow> bool" where
  "lookupActiveAt ts now domain =
     (domain \<noteq> [] \<and>
      (case readTimestamp ts domain of
         Undefined \<Rightarrow> False
       | Inherited \<Rightarrow> True
       | Timestamp t \<Rightarrow> t \<noteq> 0 \<and> now - t < TURNSTILE_BYPASS_TTL_MS))"

definition noInheritedKeyOwned :: "timestamps \<Rightarrow> bool" where
  "noInheritedKeyOwned ts = list_all (\<lambda>k. ts k = None) objectPrototypeKeys"

text \<open>
  The orchestrator state the two handlers touch: the dictionary, and the side effects a
  handler has started, oldest first. \<open>ApplyUserAgentSpoofing\<close> is the call of
  \<open>applyUserAgentSpoofing()\<close>, \<open>SetTurnstileSessionFlagAndReload tabId timestamp\<close> the
  continuation chained onto its promise.
\<close>

datatype effect =
  ApplyUserAgentSpoofing
| SetTurnstileSessionFlagAndReload "int option" int

record state =
  turnstileTimestamps :: timestamps
  effects :: "effect list"

record detectedResponse =
  success :: bool
  error :: "string option"
  ignored :: "bool option"

record statusResponse =
  skipUA :: bool
  remainingSeconds :: "jsnumber option"

text \<open>
  \<open>handleTurnstileDetectedMessage(request, sender)\<close>. \<open>now1\<close> is the reading inside
  \<open>getExactTurnstileBypass\<close>, \<open>now\<close> the one of \<open>const now = Date.now()\<close>. Logging is left
  out. The assignment \<open>turnstileTimestamps[hostname] = now\<close> creates or overwrites the own
  property. (On a plain object the assignment to \<open>__proto__\<close> creates nothing when there is
  no own property of that name. The handler comes to the assignment only after a lookup
  that answered inactive, which the lookup of an inherited property never does: from a
  dictionary without own properties of inherited names the handlers build no other,
  lemma \<open>handlers_keep_inherited_keys_unowned\<close>, so the assignment is not reached with
  such a name.)
\<close>

definition handleTurnstileDetectedMessage ::
  "(string \<Rightarrow> string option) \<Rightarrow> request \<Rightarrow> sender option \<Rightarrow> int \<Rightarrow> int \<Rightarrow> state
     \<Rightarrow> detectedResponse \<times> state" where
  "handleTurnstileDetectedMessage parseURL rq sndr now1 now st =
     (let requestedHostname = req_hostname rq;
          hostname = resolveTabHostname parseURL sndr requestedHostname
      in if \<not> truthy hostname
         then (\<lparr>success = False, error = Some ''Missing hostname'', ignored = None\<rparr>, st)
         else let (existingBypass, ts1) = getExactTurnstileBypass hostname now1 (turnstileTimestamps st)
           in if active existingBypass
              then (\<lparr>success = True, error = None, ignored = Some True\<rparr>,
                    st\<lparr>turnstileTimestamps := ts1\<rparr>)
              else let ts2 = ts1(orEmpty hostname \<mapsto> now);
                       ts3 = pruneExpiredTurnstileEntries now ts2;
                       tabId = (case sndr of
                                  None \<Rightarrow> None
                                | Some s \<Rightarrow> (case sender_tab s of None \<Rightarrow> None | Some t \<Rightarrow> tab_id t))
                   in (\<lparr>success = True, error = None, ignored = None\<rparr>,
                       st\<lparr>turnstileTimestamps := ts3,
                          effects := effects st @
                            [ApplyUserAgentSpoofing, SetTurnstileSessionFlagAndReload tabId now]\<rparr>))"

text \<open>\<open>Math.ceil(ms / 1000)\<close>; of \<open>NaN\<close> it is \<open>NaN\<close>.\<close>

definition ceilSeconds :: "jsnumber \<Rightarrow> jsnumber" where
  "ceilSeconds ms = (case ms of Num n \<Rightarrow> Num \<lceil>real_of_int n / 1000\<rceil> | NaN \<Rightarrow> NaN)"

text \<open>\<open>handleCheckTurnstileStatusMessage(request, sender)\<close>.\<close>

definition handleCheckTurnstileStatusMessage ::
  "(string \<Rightarrow> string option) \<Rightarrow> request \<Rightarrow> sender option \<Rightarrow> int \<Rightarrow> (nat \<Rightarrow> int) \<Rightarrow> state
     \<Rightarrow> statusResponse \<times> state" where
  "handleCheckTurnstileStatusMessage parseURL rq sndr nowPrune nowAt st =
     (let hostname = resolveTabHostname parseURL sndr (req_hostname rq);
          (bypassInfo, ts1) =
             getTurnstileBypassIncludingParents hostname nowPrune nowAt (turnstileTimestamps st)
      in if active bypassInfo
         then (\<lparr>skipUA = True, remainingSeconds = Some (ceilSeconds (remainingMs bypassInfo))\<rparr>,
               st\<lparr>turnstileTimestamps := ts1\<rparr>)
         else (\<lparr>skipUA = False, remainingSeconds = None\<rparr>, st\<lparr>turnstileTimestamps := ts1\<rparr>))"

section \<open>Facts about the string primitives\<close>

lemma split_not_Nil: "split sep s \<noteq> []"
  by (induction s) (auto split: list.splits)

lemma split_append_sep: "split sep (a @ sep # b) = split sep a @ split sep b"
proof (induction a)
  case Nil
  then show ?case by simp
next
  case (Cons c a)
  then show ?case
    using split_not_Nil [of sep a] by (cases "split sep a") auto
qed

lemma split_no_sep: "sep \<notin> set s \<Longrightarrow> split sep s = [s]"
  by (induction s) auto

lemma in_split_no_sep: "w \<in> set (split sep s) \<Longrightarrow> sep \<notin> set w"
proof (induction s arbitrary: w)
  case Nil
  then show ?case by simp
next
  case (Cons c s)
  then show ?case
    by (cases "split sep s") (auto split: if_splits)
qed

lemma split_snoc:
  "c \<noteq> sep \<Longrightarrow> split sep (s @ [c]) = butlast (split sep s) @ [last (split sep s) @ [c]]"
proof (induction s)
  case Nil
  then show ?case by simp
next
  case (Cons x s)
  then show ?case
    using split_not_Nil [of sep s] split_not_Nil [of sep "s @ [c]"]
    by (cases "split sep s") (auto split: list.splits)
qed

lemma split_Cons_no_sep:
  "c \<noteq> sep \<Longrightarrow> split sep (c # s) = (c # hd (split sep s)) # tl (split sep s)"
  using split_not_Nil [of sep s] by (cases "split sep s") auto

lemma set_trim: "x \<in> set (trim s) \<Longrightarrow> x \<in> set s"
  by (auto simp: trim_def dest!: set_dropWhileD)

lemma trim_Cons_ws: "isWhitespace c \<Longrightarrow> trim (c # s) = trim s"
  by (simp add: trim_def)

lemma trim_snoc_ws:
  assumes c: "isWhitespace c"
  shows "trim (s @ [c]) = trim s"
proof (cases "\<forall>x\<in>set s. isWhitespace x")
  case True
  then have a: "dropWhile isWhitespace s = []" by simp
  from True c have b: "dropWhile isWhitespace (s @ [c]) = []" by simp
  show ?thesis unfolding trim_def a b ..
next
  case False
  then obtain x where "x \<in> set s" "\<not> isWhitespace x" by blast
  then have "dropWhile isWhitespace (s @ [c]) = dropWhile isWhitespace s @ [c]"
    by (rule dropWhile_append1)
  with c show ?thesis by (simp add: trim_def)
qed

lemma last_dropWhile_eq: "dropWhile P xs \<noteq> [] \<Longrightarrow> last (dropWhile P xs) = last xs"
  by (induction xs) (auto split: if_splits)

lemma trim_fixed:
  assumes "t \<noteq> []" "\<not> isWhitespace (hd t)" "\<not> isWhitespace (last t)"
  shows "trim t = t"
proof -
  from assms have 1: "dropWhile isWhitespace t = t" by (cases t) auto
  from assms have "rev t \<noteq> []" "\<not> isWhitespace (hd (rev t))" by (auto simp: hd_rev)
  then have 2: "dropWhile isWhitespace (rev t) = rev t" by (cases "rev t") auto
  show ?thesis by (simp add: trim_def 1 2)
qed

lemma trim_ends:
  assumes "trim x \<noteq> []"
  shows "\<not> isWhitespace (hd (trim x))" and "\<not> isWhitespace (last (trim x))"
proof -
  let ?a = "dropWhile isWhitespace x"
  let ?b = "dropWhile isWhitespace (rev ?a)"
  from assms have b: "?b \<noteq> []" by (simp add: trim_def)
  have a: "?a \<noteq> []"
  proof
    assume "?a = []"
    then have "?b = []" by (simp only: rev.simps dropWhile.simps)
    with b show False by contradiction
  qed
  have "hd (trim x) = last ?b" using b by (simp add: trim_def hd_rev)
  also have "\<dots> = last (rev ?a)" using b by (rule last_dropWhile_eq)
  also have "\<dots> = hd ?a" using a by (simp add: last_rev)
  finally show "\<not> isWhitespace (hd (trim x))" using hd_dropWhile [OF a] by simp
  have "last (trim x) = hd ?b" using b by (simp add: trim_def last_rev)
  then show "\<not> isWhitespace (last (trim x))" using hd_dropWhile [OF b] by simp
qed

lemma trim_idem: "trim (trim s) = trim s"
proof (cases "trim s = []")
  case True
  have "trim [] = []" by (simp add: trim_def)
  with True show ?thesis by simp
next
  case False
  then show ?thesis by (intro trim_fixed trim_ends)
qed

lemma comma_not_ws: "isWhitespace c \<Longrightarrow> c \<noteq> CHR '',''"
  by (auto simp: isWhitespace_def)

lemma parseList_Cons_ws:
  assumes "isWhitespace c"
  shows "parseList (c # s) = parseList s"
proof -
  from assms have "c \<noteq> CHR '',''" by (rule comma_not_ws)
  then have "split (CHR '','') (c # s) = (c # hd (split (CHR '','') s)) # tl (split (CHR '','') s)"
    by (rule split_Cons_no_sep)
  moreover have "split (CHR '','') s = hd (split (CHR '','') s) # tl (split (CHR '','') s)"
    using split_not_Nil [of "CHR '',''" s] by simp
  ultimately have "map trim (split (CHR '','') (c # s)) = map trim (split (CHR '','') s)"
    using trim_Cons_ws [OF assms] by (metis list.simps(9))
  then show ?thesis by (simp add: parseList_def)
qed

lemma parseList_snoc_ws:
  assumes "isWhitespace c"
  shows "parseList (s @ [c]) = parseList s"
proof -
  let ?xs = "split (CHR '','') s"
  from assms have "c \<noteq> CHR '',''" by (rule comma_not_ws)
  then have "split (CHR '','') (s @ [c]) = butlast ?xs @ [last ?xs @ [c]]"
    by (rule split_snoc)
  then have "map trim (split (CHR '','') (s @ [c])) = map trim (butlast ?xs) @ [trim (last ?xs)]"
    using trim_snoc_ws [OF assms] by simp
  also have "\<dots> = map trim (butlast ?xs @ [last ?xs])" by simp
  also have "\<dots> = map trim ?xs" using split_not_Nil [of "CHR '',''" s] by simp
  finally show ?thesis by (simp add: parseList_def)
qed

lemma parseList_dropWhile: "parseList (dropWhile isWhitespace s) = parseList s"
  by (induction s) (auto simp: parseList_Cons_ws)

lemma parseList_rev_dropWhile: "parseList (rev (dropWhile isWhitespace (rev s))) = parseList s"
proof (induction s rule: rev_induct)
  case Nil
  then show ?case by simp
next
  case (snoc c s)
  then show ?case by (auto simp: parseList_snoc_ws)
qed

lemma parseList_trim: "parseList (trim s) = parseList s"
  by (simp add: trim_def parseList_rev_dropWhile parseList_dropWhile)

lemma parseList_Nil: "parseList [] = []"
  by (simp add: parseList_def trim_def)

lemma parseList_blank: "trim s = [] \<Longrightarrow> parseList s = []"
  using parseList_trim [of s] by (simp add: parseList_Nil)

lemma parseList_append_comma: "parseList (a @ CHR '','' # b) = parseList a @ parseList b"
  by (simp add: parseList_def split_append_sep)

lemma parseList_tokens: "t \<in> set (parseList s) \<Longrightarrow> token t"
  by (auto simp: parseList_def token_def trim_ends dest: set_trim in_split_no_sep)

lemma parseList_single: "token t \<Longrightarrow> parseList t = [t]"
  by (simp add: parseList_def token_def split_no_sep trim_fixed)

lemma parseList_join:
  "(\<And>t. t \<in> set ts \<Longrightarrow> token t) \<Longrightarrow> parseList (join '', '' ts) = ts"
proof (induction ts)
  case Nil
  then show ?case by (simp add: parseList_Nil)
next
  case (Cons x ts)
  show ?case
  proof (cases ts)
    case Nil
    with Cons.prems show ?thesis by (simp add: parseList_single)
  next
    case (Cons y ys)
    have "join '', '' (x # y # ys) = x @ CHR '','' # (CHR '' '' # join '', '' (y # ys))" by simp
    then have "parseList (join '', '' (x # y # ys))
        = parseList x @ parseList (CHR '' '' # join '', '' (y # ys))"
      by (simp only: parseList_append_comma)
    also have "\<dots> = [x] @ parseList (join '', '' (y # ys))"
      using Cons.prems by (simp add: parseList_single parseList_Cons_ws isWhitespace_def)
    also have "\<dots> = x # y # ys"
      using Cons.IH Cons.prems Cons by simp
    finally show ?thesis using Cons by simp
  qed
qed

section \<open>The policy decision\<close>

lemma isWhitelisted_iff:
  "isWhitelisted hostname whitelistString
     \<longleftrightarrow> (\<exists>pattern \<in> set (parseList whitelistString). matchesPattern hostname pattern)"
proof (cases "whitelistString = [] \<or> trim whitelistString = []")
  case True
  then have "parseList whitelistString = []"
    by (auto simp: parseList_Nil parseList_blank)
  with True show ?thesis by (simp add: isWhitelisted_def)
next
  case False
  then show ?thesis by (simp add: isWhitelisted_def list_ex_iff)
qed

text \<open>
  Claim C1. For every configuration, URL and feature identifier,
  \<open>shouldActivateFeature(url, feature)\<close> is false whenever the global \<open>enabled\<close> flag is
  false, and false whenever the hostname of the URL matches some pattern of the global
  allowlist; both hold whatever the feature sections \<open>fs\<close> of the configuration are
  (their enabled flags, their allowlists, their other parameters). The decision is a pure
  function, so that the order in which the tiers are evaluated shows only in its value.
\<close>

theorem shouldActivateFeature_global_precedence:
  "(\<not> enabled cfg \<longrightarrow> shouldActivateFeature parseURL (cfg\<lparr>features := fs\<rparr>) url featureName = False)
   \<and> (extractHostname parseURL url = Some hostname
        \<and> (\<exists>pattern \<in> set (parseList (globalWhitelist cfg)). matchesPattern hostname pattern)
      \<longrightarrow> shouldActivateFeature parseURL (cfg\<lparr>features := fs\<rparr>) url featureName = False)"
  by (auto simp: shouldActivateFeature_def isWhitelisted_iff split: option.splits)

theorem shouldActivateFeature_global_precedence_witness:
  "\<not> enabled \<lparr>enabled = False, globalWhitelist = [], features = (\<lambda>_. None),
       proxy = \<lparr>proxy_enabled = False, activeProfile = None, profiles = [], domainRoutes = [], bypassList = []\<rparr>\<rparr>
   \<and> shouldActivateFeature (\<lambda>u. Some ''sub.example.com'')
        \<lparr>enabled = False, globalWhitelist = [],
         features = (\<lambda>_. Some \<lparr>f_enabled = True, f_whitelist = None\<rparr>),
         proxy = \<lparr>proxy_enabled = False, activeProfile = None, profiles = [], domainRoutes = [], bypassList = []\<rparr>\<rparr>
        ''https://sub.example.com/'' ''canvas'' = False
   \<and> extractHostname (\<lambda>u. Some ''sub.example.com'') ''https://sub.example.com/'' = Some ''sub.example.com''
   \<and> (\<exists>pattern \<in> set (parseList ''a.org, *.example.com''). matchesPattern ''sub.example.com'' pattern)
   \<and> shouldActivateFeature (\<lambda>u. Some ''sub.example.com'')
        \<lparr>enabled = True, globalWhitelist = ''a.org, *.example.com'',
         features = (\<lambda>_. Some \<lparr>f_enabled = True, f_whitelist = None\<rparr>),
         proxy = \<lparr>proxy_enabled = False, activeProfile = None, profiles = [], domainRoutes = [], bypassList = []\<rparr>\<rparr>
        ''https://sub.example.com/'' ''canvas'' = False"
proof -
  let ?px = "\<lparr>proxy_enabled = False, activeProfile = None, profiles = [], domainRoutes = [], bypassList = []\<rparr>"
  let ?fs = "(\<lambda>_::string. Some \<lparr>f_enabled = True, f_whitelist = None\<rparr>)"
  let ?P = "(\<lambda>u::string. Some ''sub.example.com'')"
  have m: "matchesPattern ''sub.example.com'' ''*.example.com''"
    by (simp add: matchesPattern_def startsWith_def endsWith_def toLowerCase_def lowerChar_def)
  have pl: "parseList ''a.org, *.example.com'' = [''a.org'', ''*.example.com'']"
    by (simp add: parseList_def trim_def isWhitespace_def)
  have ex: "\<exists>pattern \<in> set (parseList ''a.org, *.example.com''). matchesPattern ''sub.example.com'' pattern"
    using m by (simp add: pl)
  have eh: "extractHostname ?P ''https://sub.example.com/'' = Some ''sub.example.com''"
    by (simp add: extractHostname_def)
  note t1 = shouldActivateFeature_global_precedence
    [of "\<lparr>enabled = False, globalWhitelist = [], features = (\<lambda>_. None), proxy = ?px\<rparr>"
        ?P ?fs "''https://sub.example.com/''" "''canvas''" "''sub.example.com''"]
  note t2 = shouldActivateFeature_global_precedence
    [of "\<lparr>enabled = True, globalWhitelist = ''a.org, *.example.com'', features = (\<lambda>_. None), proxy = ?px\<rparr>"
        ?P ?fs "''https://sub.example.com/''" "''canvas''" "''sub.example.com''"]
  from t1 have c1: "shouldActivateFeature ?P
        \<lparr>enabled = False, globalWhitelist = [], features = ?fs, proxy = ?px\<rparr>
        ''https://sub.example.com/'' ''canvas'' = False" by simp
  from t2 eh ex have c2: "shouldActivateFeature ?P
        \<lparr>enabled = True, globalWhitelist = ''a.org, *.example.com'', features = ?fs, proxy = ?px\<rparr>
        ''https://sub.example.com/'' ''canvas'' = False" by simp
  show ?thesis using c1 c2 eh ex by simp
qed

section \<open>Merging the default allowlists\<close>

lemma fold_push:
  "fold (\<lambda>entry merged. if P entry then merged @ [entry] else merged) xs acc = acc @ filter P xs"
  by (induction xs arbitrary: acc) auto

lemma mergeWhitelists_entries:
  "mergeWhitelists defaultWhitelist userWhitelist =
     join '', '' (parseList (orEmpty userWhitelist)
        @ filter (\<lambda>entry. toLowerCase entry \<notin> toLowerCase ` set (parseList (orEmpty userWhitelist)))
            (parseList (orEmpty defaultWhitelist)))"
  by (simp add: mergeWhitelists_def Let_def fold_push)

text \<open>
  Claim C9. The entries of the merged allowlist are the user's entries, in their order,
  followed by those default entries whose lower-cased form is not among the lower-cased
  user entries; up to case the merged entries are the union of the two lists; and merging
  the user allowlist \<open>"foo.com"\<close> with the default allowlist \<open>"foo.com, bar.com"\<close> gives
  exactly \<open>"foo.com, bar.com"\<close>.
\<close>

theorem mergeWhitelists_union:
  "parseList (mergeWhitelists defaultWhitelist userWhitelist) =
     parseList (orEmpty userWhitelist)
       @ filter (\<lambda>entry. toLowerCase entry \<notin> toLowerCase ` set (parseList (orEmpty userWhitelist)))
           (parseList (orEmpty defaultWhitelist))
   \<and> toLowerCase ` set (parseList (mergeWhitelists defaultWhitelist userWhitelist)) =
       toLowerCase ` set (parseList (orEmpty userWhitelist))
         \<union> toLowerCase ` set (parseList (orEmpty defaultWhitelist))
   \<and> mergeWhitelists (Some ''foo.com, bar.com'') (Some ''foo.com'') = ''foo.com, bar.com''"
proof -
  let ?u = "parseList (orEmpty userWhitelist)"
  let ?d = "parseList (orEmpty defaultWhitelist)"
  let ?m = "?u @ filter (\<lambda>entry. toLowerCase entry \<notin> toLowerCase ` set ?u) ?d"
  have "\<And>t. t \<in> set ?m \<Longrightarrow> token t"
    by (auto dest: parseList_tokens)
  then have 1: "parseList (mergeWhitelists defaultWhitelist userWhitelist) = ?m"
    by (simp only: mergeWhitelists_entries parseList_join)
  have 2: "toLowerCase ` set ?m = toLowerCase ` set ?u \<union> toLowerCase ` set ?d"
    by auto
  have 3: "mergeWhitelists (Some ''foo.com, bar.com'') (Some ''foo.com'') = ''foo.com, bar.com''"
    by (simp add: mergeWhitelists_def parseList_def trim_def isWhitespace_def orEmpty_def
          toLowerCase_def lowerChar_def)
  show ?thesis using 1 2 3 by simp
qed

section \<open>The generic wildcard\<close>

text \<open>
  Claim C5. A pattern with \<open>*\<close> elsewhere than the leading \<open>*.\<close> or \<open>*\<close> or the trailing
  \<open>.*\<close> is to match exactly the hostnames that the anchored regular expression matches.
  \<open>DomainFilter.matchesPattern\<close> has no such rule: \<open>*localhost*\<close> is a generic wildcard
  whose regular expression matches \<open>foo-localhost-bar\<close> (the README's example), and
  \<open>matchesPattern\<close> answers false.
\<close>

theorem matchesPattern_generic_wildcard_missing:
  "genericWildcardPattern ''*localhost*''
   \<and> wildcardRegexTest (toLowerCase ''*localhost*'') (toLowerCase ''foo-localhost-bar'') = True
   \<and> matchesPattern ''foo-localhost-bar'' ''*localhost*'' = False"
  by (simp add: genericWildcardPattern_def matchesPattern_def startsWith_def endsWith_def includesChar_def
        toLowerCase_def lowerChar_def lineTerminator_def)

section \<open>Adding a domain to an allowlist\<close>

text \<open>
  Claim C6. \<open>addDomainToWhitelist\<close> is to leave the allowlist alone when the hostname is
  already there as the token \<open>*.\<close>hostname. \<open>isDomainInWhitelist\<close> compares the tokens with
  the bare hostname only, so the entry is appended a second time.
\<close>

theorem addDomainToWhitelist_duplicates_wildcard_entry:
  "addDomainToWhitelist ''example.com'' ''*.example.com'' = ''*.example.com, *.example.com''"
  by (simp add: addDomainToWhitelist_def isDomainInWhitelist_def parseList_def trim_def
        isWhitespace_def toLowerCase_def lowerChar_def)

section \<open>Adding and then removing a domain\<close>

lemma toLowerCase_wildcard: "toLowerCase (CHR ''*'' # CHR ''.'' # h) = CHR ''*'' # CHR ''.'' # toLowerCase h"
  by (simp add: toLowerCase_def lowerChar_def)

lemma token_wildcard_entry:
  assumes "\<forall>c \<in> set hostname. c \<noteq> CHR '','' \<and> \<not> isWhitespace c"
  shows "token (''*.'' @ hostname)"
proof (cases "hostname = []")
  case True
  then show ?thesis by (simp add: token_def isWhitespace_def)
next
  case False
  then have "last hostname \<in> set hostname" by simp
  with assms False show ?thesis by (auto simp: token_def isWhitespace_def)
qed

lemma parseList_addDomain:
  assumes h: "hostname \<noteq> []" "\<forall>c \<in> set hostname. c \<noteq> CHR '','' \<and> \<not> isWhitespace c"
    and absent: "toLowerCase hostname \<notin> toLowerCase ` set (parseList allowlist)"
  shows "parseList (addDomainToWhitelist hostname allowlist) = parseList allowlist @ [''*.'' @ hostname]"
    and "addDomainToWhitelist hostname allowlist \<noteq> []"
proof -
  have notin: "\<not> isDomainInWhitelist hostname allowlist"
    using absent by (auto simp: isDomainInWhitelist_def list_ex_iff image_iff)
  have tok: "parseList (''*.'' @ hostname) = [''*.'' @ hostname]"
    using token_wildcard_entry [OF h(2)] by (rule parseList_single)
  show "parseList (addDomainToWhitelist hostname allowlist) = parseList allowlist @ [''*.'' @ hostname]"
  proof (cases "allowlist = [] \<or> trim allowlist = []")
    case True
    then have "parseList allowlist = []" by (auto simp: parseList_Nil parseList_blank)
    with True h(1) notin tok show ?thesis by (simp add: addDomainToWhitelist_def)
  next
    case False
    have "trim allowlist @ '', '' @ ''*.'' @ hostname
            = trim allowlist @ CHR '','' # (CHR '' '' # ''*.'' @ hostname)" by simp
    then have "parseList (trim allowlist @ '', '' @ ''*.'' @ hostname)
            = parseList (trim allowlist) @ parseList (CHR '' '' # ''*.'' @ hostname)"
      by (simp only: parseList_append_comma)
    also have "\<dots> = parseList allowlist @ [''*.'' @ hostname]"
      using tok by (simp add: parseList_trim parseList_Cons_ws isWhitespace_def)
    finally show ?thesis using False h(1) notin by (simp add: addDomainToWhitelist_def)
  qed
  show "addDomainToWhitelist hostname allowlist \<noteq> []"
    using h(1) notin by (simp add: addDomainToWhitelist_def Let_def)
qed

text \<open>
  Claim C7, as stated, fails: the hostname \<open>a.com\<close> is already a token of the allowlist
  \<open>"a.com"\<close>, so adding it changes nothing and removing it then deletes the original
  entry; the tokens of the result (none) are not those of the original.
\<close>

theorem add_then_remove_counterexample:
  "set (parseList (removeDomainFromWhitelist ''a.com'' (addDomainToWhitelist ''a.com'' ''a.com'')))
     \<noteq> set (parseList ''a.com'')"
  by (simp add: removeDomainFromWhitelist_def addDomainToWhitelist_def isDomainInWhitelist_def
        parseList_def trim_def isWhitespace_def toLowerCase_def lowerChar_def)

text \<open>
  Claim C7, amended. For a hostname without comma or white space and an allowlist none of
  whose tokens is the hostname or \<open>*.\<close>hostname up to case, adding the hostname and then
  removing it gives an allowlist with the tokens of the original, in the same order.
\<close>

theorem add_then_remove_restores:
  assumes "\<forall>c \<in> set hostname. c \<noteq> CHR '','' \<and> \<not> isWhitespace c"
    and "toLowerCase hostname \<notin> toLowerCase ` set (parseList allowlist)"
    and "''*.'' @ toLowerCase hostname \<notin> toLowerCase ` set (parseList allowlist)"
  shows "parseList (removeDomainFromWhitelist hostname (addDomainToWhitelist hostname allowlist))
           = parseList allowlist"
proof (cases "hostname = []")
  case True
  then show ?thesis by (simp add: removeDomainFromWhitelist_def addDomainToWhitelist_def)
next
  case False
  let ?keep = "\<lambda>d. toLowerCase d \<noteq> toLowerCase hostname \<and> toLowerCase d \<noteq> ''*.'' @ toLowerCase hostname"
  have pl: "parseList (addDomainToWhitelist hostname allowlist) = parseList allowlist @ [''*.'' @ hostname]"
    and ne: "addDomainToWhitelist hostname allowlist \<noteq> []"
    using False assms(1,2) by (rule parseList_addDomain)+
  have "filter ?keep (parseList allowlist) = parseList allowlist"
    using assms(2,3) by (auto simp: filter_id_conv image_iff)
  then have f: "filter ?keep (parseList allowlist @ [''*.'' @ hostname]) = parseList allowlist"
    by (simp add: toLowerCase_wildcard)
  have g: "filter ?keep (parseList (addDomainToWhitelist hostname allowlist)) = parseList allowlist"
    unfolding pl by (rule f)
  have "removeDomainFromWhitelist hostname (addDomainToWhitelist hostname allowlist)
          = join '', '' (filter ?keep (parseList (addDomainToWhitelist hostname allowlist)))"
    using False ne by (simp add: removeDomainFromWhitelist_def Let_def)
  then have "removeDomainFromWhitelist hostname (addDomainToWhitelist hostname allowlist)
          = join '', '' (parseList allowlist)"
    by (simp only: g)
  then show ?thesis by (simp add: parseList_join parseList_tokens)
qed

theorem add_then_remove_restores_witness:
  "CHR '','' \<notin> set ''a.com''
   \<and> \<not> list_ex isWhitespace ''a.com''
   \<and> toLowerCase ''a.com'' \<notin> toLowerCase ` set (parseList '' B.org ,c.net'')
   \<and> ''*.'' @ toLowerCase ''a.com'' \<notin> toLowerCase ` set (parseList '' B.org ,c.net'')
   \<and> parseList (removeDomainFromWhitelist ''a.com'' (addDomainToWhitelist ''a.com'' '' B.org ,c.net''))
       = [''B.org'', ''c.net'']
   \<and> parseList '' B.org ,c.net'' = [''B.org'', ''c.net'']"
proof -
  have p: "parseList '' B.org ,c.net'' = [''B.org'', ''c.net'']"
    by (simp add: parseList_def trim_def isWhitespace_def)
  have a: "\<forall>c \<in> set ''a.com''. c \<noteq> CHR '','' \<and> \<not> isWhitespace c"
    by (simp add: isWhitespace_def)
  have b: "toLowerCase ''a.com'' \<notin> toLowerCase ` set (parseList '' B.org ,c.net'')"
    by (simp add: p toLowerCase_def lowerChar_def)
  have c: "''*.'' @ toLowerCase ''a.com'' \<notin> toLowerCase ` set (parseList '' B.org ,c.net'')"
    by (simp add: p toLowerCase_def lowerChar_def)
  have d: "CHR '','' \<notin> set ''a.com''" "\<not> list_ex isWhitespace ''a.com''"
    by (simp_all add: isWhitespace_def)
  from add_then_remove_restores [OF a b c] p b c d show ?thesis by simp
qed

section \<open>Removing a proxy profile\<close>

text \<open>
  Claim C10. \<open>removeProxyProfile\<close> keeps exactly the routes whose profile reference
  differs from the name and exactly the profiles with another name, in their order; it
  leaves the bypass list and every other section of the configuration alone; when the
  removed profile is the active one it clears \<open>activeProfile\<close> and also sets
  \<open>proxy.enabled\<close> to false, and otherwise it changes neither.
\<close>

theorem removeProxyProfile_cascade:
  "domainRoutes (proxy (removeProxyProfile profileName cfg)) =
       filter (\<lambda>r. r_profile r \<noteq> profileName) (domainRoutes (proxy cfg))
   \<and> profiles (proxy (removeProxyProfile profileName cfg)) =
       filter (\<lambda>p. p_name p \<noteq> profileName) (profiles (proxy cfg))
   \<and> bypassList (proxy (removeProxyProfile profileName cfg)) = bypassList (proxy cfg)
   \<and> (activeProfile (proxy cfg) = Some profileName \<longrightarrow>
         activeProfile (proxy (removeProxyProfile profileName cfg)) = None
         \<and> proxy_enabled (proxy (removeProxyProfile profileName cfg)) = False)
   \<and> (activeProfile (proxy cfg) \<noteq> Some profileName \<longrightarrow>
         activeProfile (proxy (removeProxyProfile profileName cfg)) = activeProfile (proxy cfg)
         \<and> proxy_enabled (proxy (removeProxyProfile profileName cfg)) = proxy_enabled (proxy cfg))
   \<and> removeProxyProfile profileName cfg = cfg\<lparr>proxy := proxy (removeProxyProfile profileName cfg)\<rparr>"
  by (simp add: removeProxyProfile_def Let_def)

theorem removeProxyProfile_cascade_witness:
  "activeProfile (proxy \<lparr>enabled = True, globalWhitelist = [], features = (\<lambda>_. None :: feature option),
       proxy = \<lparr>proxy_enabled = True, activeProfile = Some ''NYC'',
         profiles = [\<lparr>p_name = ''NYC'', p_host = ''10.0.0.1'', p_port = 1080, p_scheme = ''socks5'', p_remoteDNS = True\<rparr>,
                     \<lparr>p_name = ''LA'', p_host = ''10.0.0.2'', p_port = 1080, p_scheme = ''socks5'', p_remoteDNS = True\<rparr>],
         domainRoutes = [\<lparr>r_pattern = ''*.a.com'', r_profile = ''NYC''\<rparr>, \<lparr>r_pattern = ''b.com'', r_profile = ''LA''\<rparr>],
         bypassList = [''localhost'']\<rparr>\<rparr>) = Some ''NYC''
   \<and> proxy (removeProxyProfile ''NYC'' \<lparr>enabled = True, globalWhitelist = [], features = (\<lambda>_. None :: feature option),
       proxy = \<lparr>proxy_enabled = True, activeProfile = Some ''NYC'',
         profiles = [\<lparr>p_name = ''NYC'', p_host = ''10.0.0.1'', p_port = 1080, p_scheme = ''socks5'', p_remoteDNS = True\<rparr>,
                     \<lparr>p_name = ''LA'', p_host = ''10.0.0.2'', p_port = 1080, p_scheme = ''socks5'', p_remoteDNS = True\<rparr>],
         domainRoutes = [\<lparr>r_pattern = ''*.a.com'', r_profile = ''NYC''\<rparr>, \<lparr>r_pattern = ''b.com'', r_profile = ''LA''\<rparr>],
         bypassList = [''localhost'']\<rparr>\<rparr>)
     = \<lparr>proxy_enabled = False, activeProfile = None,
         profiles = [\<lparr>p_name = ''LA'', p_host = ''10.0.0.2'', p_port = 1080, p_scheme = ''socks5'', p_remoteDNS = True\<rparr>],
         domainRoutes = [\<lparr>r_pattern = ''b.com'', r_profile = ''LA''\<rparr>],
         bypassList = [''localhost'']\<rparr>
   \<and> activeProfile (proxy \<lparr>enabled = True, globalWhitelist = [], features = (\<lambda>_. None :: feature option),
       proxy = \<lparr>proxy_enabled = True, activeProfile = Some ''LA'', profiles = [], domainRoutes = [],
         bypassList = []\<rparr>\<rparr>) \<noteq> Some ''NYC''
   \<and> proxy (removeProxyProfile ''NYC'' \<lparr>enabled = True, globalWhitelist = [], features = (\<lambda>_. None :: feature option),
       proxy = \<lparr>proxy_enabled = True, activeProfile = Some ''LA'', profiles = [], domainRoutes = [],
         bypassList = []\<rparr>\<rparr>)
     = \<lparr>proxy_enabled = True, activeProfile = Some ''LA'', profiles = [], domainRoutes = [], bypassList = []\<rparr>"
proof -
  let ?c1 = "\<lparr>enabled = True, globalWhitelist = [], features = (\<lambda>_. None :: feature option),
       proxy = \<lparr>proxy_enabled = True, activeProfile = Some ''NYC'',
         profiles = [\<lparr>p_name = ''NYC'', p_host = ''10.0.0.1'', p_port = 1080, p_scheme = ''socks5'', p_remoteDNS = True\<rparr>,
                     \<lparr>p_name = ''LA'', p_host = ''10.0.0.2'', p_port = 1080, p_scheme = ''socks5'', p_remoteDNS = True\<rparr>],
         domainRoutes = [\<lparr>r_pattern = ''*.a.com'', r_profile = ''NYC''\<rparr>, \<lparr>r_pattern = ''b.com'', r_profile = ''LA''\<rparr>],
         bypassList = [''localhost'']\<rparr>\<rparr>"
  let ?c2 = "\<lparr>enabled = True, globalWhitelist = [], features = (\<lambda>_. None :: feature option),
       proxy = \<lparr>proxy_enabled = True, activeProfile = Some ''LA'', profiles = [], domainRoutes = [],
         bypassList = []\<rparr>\<rparr>"
  have a: "proxy (removeProxyProfile ''NYC'' ?c1)
     = \<lparr>proxy_enabled = False, activeProfile = None,
         profiles = [\<lparr>p_name = ''LA'', p_host = ''10.0.0.2'', p_port = 1080, p_scheme = ''socks5'', p_remoteDNS = True\<rparr>],
         domainRoutes = [\<lparr>r_pattern = ''b.com'', r_profile = ''LA''\<rparr>],
         bypassList = [''localhost'']\<rparr>"
    using removeProxyProfile_cascade [of "''NYC''" ?c1] by simp
  have b: "proxy (removeProxyProfile ''NYC'' ?c2)
     = \<lparr>proxy_enabled = True, activeProfile = Some ''LA'', profiles = [], domainRoutes = [], bypassList = []\<rparr>"
    using removeProxyProfile_cascade [of "''NYC''" ?c2] by simp
  show ?thesis using a b by simp
qed

section \<open>Facts about the bypass state\<close>

lemma getExact_active:
  assumes "d \<noteq> []" "ts d = Some t0" "t0 \<noteq> 0" "now - t0 < TURNSTILE_BYPASS_TTL_MS"
  shows "getExactTurnstileBypass (Some d) now ts =
           (\<lparr>active = True, remainingMs = Num (TURNSTILE_BYPASS_TTL_MS - (now - t0))\<rparr>, ts)"
  using assms by (simp add: getExactTurnstileBypass_def readTimestamp_def Let_def)

lemma getExact_inactive:
  "\<not> lookupActiveAt ts now d \<Longrightarrow>
   fst (getExactTurnstileBypass (Some d) now ts) = \<lparr>active = False, remainingMs = Num 0\<rparr>"
  by (auto simp: getExactTurnstileBypass_def lookupActiveAt_def Let_def split: property.splits)

lemma getExact_activeAt:
  "activeAt ts now d \<Longrightarrow> getExactTurnstileBypass (Some d) now ts =
     (\<lparr>active = True, remainingMs = Num (TURNSTILE_BYPASS_TTL_MS - (now - the (ts d)))\<rparr>, ts)"
  by (auto simp: getExactTurnstileBypass_def readTimestamp_def activeAt_def Let_def split: option.splits)

lemma getExact_snd_other:
  "d' \<noteq> d \<Longrightarrow> snd (getExactTurnstileBypass (Some d) now ts) d' = ts d'"
  by (auto simp: getExactTurnstileBypass_def Let_def split: property.splits)

lemma getExact_snd_None:
  "ts d' = None \<Longrightarrow> snd (getExactTurnstileBypass hostname now ts) d' = None"
  by (auto simp: getExactTurnstileBypass_def Let_def split: option.splits property.splits)

lemma activeAt_cong: "ts' d = ts d \<Longrightarrow> activeAt ts' now d = activeAt ts now d"
  by (simp add: activeAt_def)

lemma lookupActiveAt_cong: "ts' d = ts d \<Longrightarrow> lookupActiveAt ts' now d = lookupActiveAt ts now d"
  by (simp add: lookupActiveAt_def readTimestamp_def)

lemma activeAt_lookup: "activeAt ts now d \<Longrightarrow> lookupActiveAt ts now d"
  by (auto simp: activeAt_def lookupActiveAt_def readTimestamp_def split: option.splits)

lemma lookupActiveAt_cases:
  "lookupActiveAt ts now d \<Longrightarrow> activeAt ts now d \<or> (ts d = None \<and> d \<in> set objectPrototypeKeys)"
  by (auto simp: activeAt_def lookupActiveAt_def readTimestamp_def split: option.splits if_splits)

lemma length_join_step:
  assumes "Suc i < length labels"
  shows "length (suffixDomain labels (Suc i)) < length (suffixDomain labels i)"
proof -
  from assms have "drop i labels = labels ! i # drop (Suc i) labels"
    by (simp add: Cons_nth_drop_Suc)
  moreover from assms obtain y ys where "drop (Suc i) labels = y # ys"
    by (cases "drop (Suc i) labels") auto
  ultimately show ?thesis by (simp add: suffixDomain_def)
qed

lemma length_suffixDomain_less:
  "i < j \<Longrightarrow> j < length labels \<Longrightarrow> length (suffixDomain labels j) < length (suffixDomain labels i)"
proof (induction j)
  case 0
  then show ?case by simp
next
  case (Suc j)
  have step: "length (suffixDomain labels (Suc j)) < length (suffixDomain labels j)"
    using Suc.prems by (intro length_join_step)
  show ?case
  proof (cases "i = j")
    case True
    with step show ?thesis by simp
  next
    case False
    with Suc have "length (suffixDomain labels j) < length (suffixDomain labels i)" by simp
    with step show ?thesis by simp
  qed
qed

lemma suffixDomain_distinct:
  "i < j \<Longrightarrow> j < length labels \<Longrightarrow> suffixDomain labels j \<noteq> suffixDomain labels i"
  using length_suffixDomain_less [of i j labels] by auto

lemma parentsLoop_step_inactive:
  assumes "i < length labels" "\<not> lookupActiveAt ts (nowAt i) (suffixDomain labels i)"
  shows "parentsLoop labels nowAt i ts =
     parentsLoop labels nowAt (Suc i)
       (snd (getExactTurnstileBypass (Some (suffixDomain labels i)) (nowAt i) ts))"
proof -
  obtain b ts' where g: "getExactTurnstileBypass (Some (join ''.'' (drop i labels))) (nowAt i) ts = (b, ts')"
    by (cases "getExactTurnstileBypass (Some (join ''.'' (drop i labels))) (nowAt i) ts")
  with getExact_inactive [OF assms(2)] have "\<not> active b"
    by (simp add: suffixDomain_def)
  with assms(1) g show ?thesis
    by (subst parentsLoop.simps) (simp add: suffixDomain_def)
qed

lemma parentsLoop_step_active:
  assumes "i < length labels" "activeAt ts (nowAt i) (suffixDomain labels i)"
  shows "parentsLoop labels nowAt i ts =
     (\<lparr>active = True,
       remainingMs = Num (TURNSTILE_BYPASS_TTL_MS - (nowAt i - the (ts (suffixDomain labels i)))),
       matchedDomain = Some (suffixDomain labels i)\<rparr>, ts)"
  using assms(1) getExact_activeAt [OF assms(2)]
  by (subst parentsLoop.simps) (simp add: suffixDomain_def Let_def)

lemma getExact_keeps_later:
  assumes "i < j" "j < length labels"
  shows "snd (getExactTurnstileBypass (Some (suffixDomain labels i)) now ts) (suffixDomain labels j)
           = ts (suffixDomain labels j)"
proof -
  have "suffixDomain labels j \<noteq> suffixDomain labels i"
    using assms by (rule suffixDomain_distinct)
  then show ?thesis by (rule getExact_snd_other)
qed

lemma parentsLoop_first_active:
  assumes k: "k < length labels" and ik: "i \<le> k"
    and before: "\<And>j. i \<le> j \<Longrightarrow> j < k \<Longrightarrow> \<not> lookupActiveAt ts (nowAt j) (suffixDomain labels j)"
    and atk: "activeAt ts (nowAt k) (suffixDomain labels k)"
  shows "fst (parentsLoop labels nowAt i ts) =
     \<lparr>active = True,
      remainingMs = Num (TURNSTILE_BYPASS_TTL_MS - (nowAt k - the (ts (suffixDomain labels k)))),
      matchedDomain = Some (suffixDomain labels k)\<rparr>"
  using ik before atk
proof (induction i arbitrary: ts rule: inc_induct)
  case base
  show ?case
    using parentsLoop_step_active [where i=k and labels=labels and ts=ts and nowAt=nowAt, OF k base(2)] by simp
next
  case (step n)
  let ?ts' = "snd (getExactTurnstileBypass (Some (suffixDomain labels n)) (nowAt n) ts)"
  have nl: "n < length labels" using step.hyps(2) k by simp
  have inact: "\<not> lookupActiveAt ts (nowAt n) (suffixDomain labels n)"
    using step.prems(1) [of n] step.hyps(2) by simp
  have samek: "?ts' (suffixDomain labels k) = ts (suffixDomain labels k)"
    using step.hyps(2) k by (rule getExact_keeps_later)
  have "fst (parentsLoop labels nowAt (Suc n) ?ts') =
     \<lparr>active = True,
      remainingMs = Num (TURNSTILE_BYPASS_TTL_MS - (nowAt k - the (?ts' (suffixDomain labels k)))),
      matchedDomain = Some (suffixDomain labels k)\<rparr>"
  proof (rule step.IH)
    fix j assume j: "Suc n \<le> j" "j < k"
    then have "n < j" "j < length labels" using k by simp_all
    then have "?ts' (suffixDomain labels j) = ts (suffixDomain labels j)"
      by (rule getExact_keeps_later)
    then have "lookupActiveAt ?ts' (nowAt j) (suffixDomain labels j)
                 = lookupActiveAt ts (nowAt j) (suffixDomain labels j)"
      by (rule lookupActiveAt_cong)
    moreover have "\<not> lookupActiveAt ts (nowAt j) (suffixDomain labels j)"
      using j by (intro step.prems(1)) simp_all
    ultimately show "\<not> lookupActiveAt ?ts' (nowAt j) (suffixDomain labels j)" by simp
  next
    have "activeAt ?ts' (nowAt k) (suffixDomain labels k) = activeAt ts (nowAt k) (suffixDomain labels k)"
      using samek by (rule activeAt_cong)
    with step.prems(2) show "activeAt ?ts' (nowAt k) (suffixDomain labels k)" by simp
  qed
  then show ?case
    unfolding parentsLoop_step_inactive [where i=n and labels=labels and ts=ts and nowAt=nowAt, OF nl inact] samek .
qed

lemma parentsLoop_none_active:
  "(\<And>j. i \<le> j \<Longrightarrow> j < length labels \<Longrightarrow> \<not> lookupActiveAt ts (nowAt j) (suffixDomain labels j))
   \<Longrightarrow> fst (parentsLoop labels nowAt i ts) = \<lparr>active = False, remainingMs = Num 0, matchedDomain = None\<rparr>"
proof (induction labels nowAt i ts rule: parentsLoop.induct)
  case (1 labels nowAt i ts)
  show ?case
  proof (cases "i < length labels")
    case False
    then show ?thesis by (subst parentsLoop.simps) simp
  next
    case True
    let ?d = "join ''.'' (drop i labels)"
    obtain b ts' where g: "getExactTurnstileBypass (Some ?d) (nowAt i) ts = (b, ts')"
      by (cases "getExactTurnstileBypass (Some ?d) (nowAt i) ts")
    have inact: "\<not> lookupActiveAt ts (nowAt i) (suffixDomain labels i)"
      using True by (intro "1.prems") simp_all
    then have nb: "\<not> active b"
      using getExact_inactive [of ts "nowAt i" "suffixDomain labels i"] g
      by (simp add: suffixDomain_def)
    have ts': "ts' = snd (getExactTurnstileBypass (Some (suffixDomain labels i)) (nowAt i) ts)"
      using g by (simp add: suffixDomain_def)
    have "fst (parentsLoop labels nowAt (i + 1) ts') =
        \<lparr>active = False, remainingMs = Num 0, matchedDomain = None\<rparr>"
    proof (rule "1.IH" [OF True refl refl g [symmetric] nb])
      fix j assume j: "i + 1 \<le> j" "j < length labels"
      then have "i < j" by simp
      then have "ts' (suffixDomain labels j) = ts (suffixDomain labels j)"
        unfolding ts' using j(2) by (rule getExact_keeps_later)
      then have "lookupActiveAt ts' (nowAt j) (suffixDomain labels j)
                   = lookupActiveAt ts (nowAt j) (suffixDomain labels j)"
        by (rule lookupActiveAt_cong)
      moreover have "\<not> lookupActiveAt ts (nowAt j) (suffixDomain labels j)"
        using j by (intro "1.prems") simp_all
      ultimately show "\<not> lookupActiveAt ts' (nowAt j) (suffixDomain labels j)" by simp
    qed
    then show ?thesis
      using True g nb by (subst parentsLoop.simps) simp
  qed
qed

lemma parentsLoop_snd_None:
  "ts d = None \<Longrightarrow> snd (parentsLoop labels nowAt i ts) d = None"
proof (induction labels nowAt i ts rule: parentsLoop.induct)
  case (1 labels nowAt i ts)
  show ?case
  proof (cases "i < length labels")
    case False
    with "1.prems" show ?thesis by (subst parentsLoop.simps) simp
  next
    case True
    let ?d = "join ''.'' (drop i labels)"
    obtain b ts' where g: "getExactTurnstileBypass (Some ?d) (nowAt i) ts = (b, ts')"
      by (cases "getExactTurnstileBypass (Some ?d) (nowAt i) ts")
    have n: "ts' d = None"
      using getExact_snd_None [where ts=ts and d'=d and hostname="Some ?d" and now="nowAt i", OF "1.prems"] g by simp
    show ?thesis
    proof (cases "active b")
      case True
      with \<open>i < length labels\<close> g n show ?thesis by (subst parentsLoop.simps) simp
    next
      case False
      have "snd (parentsLoop labels nowAt (i + 1) ts') d = None"
        by (rule "1.IH" [OF \<open>i < length labels\<close> refl refl g [symmetric] False n])
      with \<open>i < length labels\<close> g False show ?thesis
        by (subst parentsLoop.simps) simp
    qed
  qed
qed

lemma prune_expired:
  "ts h = Some t0 \<Longrightarrow> now - t0 \<ge> TURNSTILE_BYPASS_TTL_MS \<Longrightarrow> pruneExpiredTurnstileEntries now ts h = None"
  by (simp add: pruneExpiredTurnstileEntries_def)

lemma prune_activeAt:
  "activeAt (pruneExpiredTurnstileEntries nowPrune ts) now d \<Longrightarrow> activeAt ts now d"
  by (auto simp: activeAt_def pruneExpiredTurnstileEntries_def split: option.splits if_splits)

lemma prune_eq_without_expired:
  assumes "ts h = Some t0" "now - t0 \<ge> TURNSTILE_BYPASS_TTL_MS"
  shows "pruneExpiredTurnstileEntries now (ts(h := None)) = pruneExpiredTurnstileEntries now ts"
  using assms by (auto simp: pruneExpiredTurnstileEntries_def fun_eq_iff)

lemma inherited_keys_no_dot: "k \<in> set objectPrototypeKeys \<Longrightarrow> CHR ''.'' \<notin> set k"
  by (auto simp: objectPrototypeKeys_def)

lemma suffixDomain_has_dot:
  assumes "Suc j < length labels"
  shows "CHR ''.'' \<in> set (suffixDomain labels j)"
proof -
  from assms have "drop j labels = labels ! j # drop (Suc j) labels"
    by (simp add: Cons_nth_drop_Suc)
  moreover from assms obtain y ys where "drop (Suc j) labels = y # ys"
    by (cases "drop (Suc j) labels") auto
  ultimately show ?thesis by (simp add: suffixDomain_def)
qed

lemma suffixDomain_not_inherited:
  "Suc j < length labels \<Longrightarrow> suffixDomain labels j \<notin> set objectPrototypeKeys"
  using suffixDomain_has_dot inherited_keys_no_dot by blast

lemma join_Cons_Cons: "join sep ((c # w) # ws) = c # join sep (w # ws)"
  by (cases ws) simp_all

lemma join_split: "join [sep] (split sep s) = s"
proof (induction s)
  case Nil
  then show ?case by simp
next
  case (Cons c s)
  obtain w ws where sp: "split sep s = w # ws"
    using split_not_Nil [of sep s] by (cases "split sep s") auto
  with Cons show ?case by (simp add: join_Cons_Cons)
qed

lemma suffixDomain_0: "suffixDomain (split (CHR ''.'') h) 0 = h"
  using join_split [of "CHR ''.''" h] by (simp add: suffixDomain_def)

lemma suffixDomain_subdomain:
  "suffixDomain (split (CHR ''.'') (sub @ ''.'' @ ancestor)) (length (split (CHR ''.'') sub)) = ancestor"
proof -
  have "split (CHR ''.'') (sub @ ''.'' @ ancestor) = split (CHR ''.'') sub @ split (CHR ''.'') ancestor"
    using split_append_sep [of "CHR ''.''" sub ancestor] by simp
  then show ?thesis
    using join_split [of "CHR ''.''" ancestor] by (simp add: suffixDomain_def)
qed

lemma length_split_subdomain:
  "length (split (CHR ''.'') sub) < length (split (CHR ''.'') (sub @ ''.'' @ ancestor))"
proof -
  have "split (CHR ''.'') (sub @ ''.'' @ ancestor) = split (CHR ''.'') sub @ split (CHR ''.'') ancestor"
    using split_append_sep [of "CHR ''.''" sub ancestor] by simp
  then show ?thesis using split_not_Nil [of "CHR ''.''" ancestor] by simp
qed

lemma resolveTabHostname_fallback:
  assumes "resolveTabHostname parseURL sndr None = None"
  shows "resolveTabHostname parseURL sndr fallbackHostname = fallbackHostname"
  using assms
  by (auto simp: resolveTabHostname_def Let_def truthy_def split: option.splits if_splits)

lemma detect_ignored_when_active:
  assumes "resolveTabHostname parseURL sndr (req_hostname rq) = Some h" "h \<noteq> []"
    and "turnstileTimestamps st h = Some t0" "t0 \<noteq> 0" "t - t0 < TURNSTILE_BYPASS_TTL_MS"
  shows "handleTurnstileDetectedMessage parseURL rq sndr t t' st =
           (\<lparr>success = True, error = None, ignored = Some True\<rparr>, st)"
  using assms getExact_active [where d=h and ts="turnstileTimestamps st" and ?t0.0=t0 and now=t, OF assms(2,3,4,5)]
  by (simp add: handleTurnstileDetectedMessage_def Let_def truthy_def)

lemma detect_records:
  assumes "handleTurnstileDetectedMessage parseURL rq sndr n1 t0 st0 =
             (\<lparr>success = True, error = None, ignored = None\<rparr>, st1)"
    and "resolveTabHostname parseURL sndr (req_hostname rq) = Some h"
  shows "h \<noteq> [] \<and> turnstileTimestamps st1 h = Some t0"
proof -
  have ttl: "\<not> TURNSTILE_BYPASS_TTL_MS \<le> 0" by (simp add: TURNSTILE_BYPASS_TTL_MS_def)
  obtain b ts1 where g: "getExactTurnstileBypass (Some h) n1 (turnstileTimestamps st0) = (b, ts1)"
    by (cases "getExactTurnstileBypass (Some h) n1 (turnstileTimestamps st0)")
  from assms g ttl show ?thesis
    by (auto simp: handleTurnstileDetectedMessage_def Let_def truthy_def orEmpty_def
          pruneExpiredTurnstileEntries_def split: if_splits)
qed

lemma parentsLoop_some_active:
  assumes k: "k < length labels" and atk: "activeAt ts (nowAt k) (suffixDomain labels k)"
    and own: "\<And>j. j < k \<Longrightarrow> suffixDomain labels j \<notin> set objectPrototypeKeys"
  shows "\<exists>j\<le>k. activeAt ts (nowAt j) (suffixDomain labels j)
           \<and> fst (parentsLoop labels nowAt 0 ts) =
               \<lparr>active = True,
                remainingMs = Num (TURNSTILE_BYPASS_TTL_MS - (nowAt j - the (ts (suffixDomain labels j)))),
                matchedDomain = Some (suffixDomain labels j)\<rparr>"
proof -
  define m where "m = (LEAST j. lookupActiveAt ts (nowAt j) (suffixDomain labels j))"
  have lk: "lookupActiveAt ts (nowAt k) (suffixDomain labels k)"
    using atk by (rule activeAt_lookup)
  have lm: "lookupActiveAt ts (nowAt m) (suffixDomain labels m)"
    unfolding m_def using lk by (rule LeastI)
  have mk: "m \<le> k"
    unfolding m_def using lk by (rule Least_le)
  have before: "\<not> lookupActiveAt ts (nowAt j) (suffixDomain labels j)" if "j < m" for j
    using that not_less_Least unfolding m_def by blast
  have am: "activeAt ts (nowAt m) (suffixDomain labels m)"
  proof (cases "m = k")
    case True
    with atk show ?thesis by simp
  next
    case False
    with mk have "m < k" by simp
    then have "suffixDomain labels m \<notin> set objectPrototypeKeys" by (rule own)
    with lookupActiveAt_cases [OF lm] show ?thesis by blast
  qed
  have "fst (parentsLoop labels nowAt 0 ts) =
     \<lparr>active = True,
      remainingMs = Num (TURNSTILE_BYPASS_TTL_MS - (nowAt m - the (ts (suffixDomain labels m)))),
      matchedDomain = Some (suffixDomain labels m)\<rparr>"
  proof (rule parentsLoop_first_active)
    show "m < length labels" using mk k by simp
    show "0 \<le> m" by simp
    show "\<not> lookupActiveAt ts (nowAt j) (suffixDomain labels j)" if "0 \<le> j" "j < m" for j
      using that(2) by (rule before)
    show "activeAt ts (nowAt m) (suffixDomain labels m)" by (rule am)
  qed
  with mk am show ?thesis by blast
qed

lemma activeAt_pruned_entry:
  assumes "activeAt (pruneExpiredTurnstileEntries nowPrune ts) now d"
  shows "\<exists>t. ts d = Some t \<and> pruneExpiredTurnstileEntries nowPrune ts d = Some t
            \<and> t \<noteq> 0 \<and> now - t < TURNSTILE_BYPASS_TTL_MS"
  using assms
  by (auto simp: activeAt_def pruneExpiredTurnstileEntries_def split: option.splits if_splits)

lemma activeAt_pruned:
  assumes "d \<noteq> []" "ts d = Some t0" "t0 \<noteq> 0"
    "nowPrune - t0 < TURNSTILE_BYPASS_TTL_MS" "now - t0 < TURNSTILE_BYPASS_TTL_MS"
  shows "activeAt (pruneExpiredTurnstileEntries nowPrune ts) now d"
    and "pruneExpiredTurnstileEntries nowPrune ts d = Some t0"
  using assms by (simp_all add: activeAt_def pruneExpiredTurnstileEntries_def)

lemma getExact_fst_other:
  "h' \<noteq> h \<Longrightarrow>
   fst (getExactTurnstileBypass (Some h') t' (snd (getExactTurnstileBypass (Some h) t ts)))
     = fst (getExactTurnstileBypass (Some h') t' ts)"
  by (auto simp: getExactTurnstileBypass_def readTimestamp_def Let_def split: option.splits property.splits)

lemma lookup_pruned_inactive:
  assumes "\<not> activeAt ts now d" "d \<notin> set objectPrototypeKeys"
  shows "\<not> lookupActiveAt (pruneExpiredTurnstileEntries nowPrune ts) now d"
proof
  assume "lookupActiveAt (pruneExpiredTurnstileEntries nowPrune ts) now d"
  then have "activeAt (pruneExpiredTurnstileEntries nowPrune ts) now d"
    using lookupActiveAt_cases assms(2) by blast
  then have "activeAt ts now d" by (rule prune_activeAt)
  with assms(1) show False by contradiction
qed

lemma prune_None: "ts d = None \<Longrightarrow> pruneExpiredTurnstileEntries now ts d = None"
  by (simp add: pruneExpiredTurnstileEntries_def)

lemma getParents_snd_None:
  assumes "ts d = None"
  shows "snd (getTurnstileBypassIncludingParents hostname nowPrune nowAt ts) d = None"
proof (cases "truthy hostname")
  case False
  with assms show ?thesis by (simp add: getTurnstileBypassIncludingParents_def)
next
  case True
  have "pruneExpiredTurnstileEntries nowPrune ts d = None" using assms by (rule prune_None)
  then have "snd (parentsLoop (split (CHR ''.'') (orEmpty hostname)) nowAt 0
                    (pruneExpiredTurnstileEntries nowPrune ts)) d = None"
    by (rule parentsLoop_snd_None)
  with True show ?thesis by (simp add: getTurnstileBypassIncludingParents_def Let_def)
qed

lemma noInheritedKeyOwned_iff:
  "noInheritedKeyOwned ts \<longleftrightarrow> (\<forall>k \<in> set objectPrototypeKeys. ts k = None)"
  by (simp add: noInheritedKeyOwned_def list_all_iff)

lemma handlers_keep_inherited_keys_unowned:
  assumes "noInheritedKeyOwned (turnstileTimestamps st)"
  shows "noInheritedKeyOwned
           (turnstileTimestamps (snd (handleTurnstileDetectedMessage parseURL rq sndr now1 now st)))"
    and "noInheritedKeyOwned
           (turnstileTimestamps (snd (handleCheckTurnstileStatusMessage parseURL rq sndr nowPrune nowAt st)))"
proof -
  let ?ts = "turnstileTimestamps st"
  let ?hn = "resolveTabHostname parseURL sndr (req_hostname rq)"
  have inv: "?ts k = None" if "k \<in> set objectPrototypeKeys" for k
    using assms that by (simp add: noInheritedKeyOwned_iff)
  show "noInheritedKeyOwned
           (turnstileTimestamps (snd (handleTurnstileDetectedMessage parseURL rq sndr now1 now st)))"
  proof (cases "truthy ?hn")
    case False
    with assms show ?thesis by (simp add: handleTurnstileDetectedMessage_def Let_def)
  next
    case True
    then obtain h where h: "?hn = Some h" "h \<noteq> []"
      by (auto simp: truthy_def split: option.splits)
    obtain b ts1 where g: "getExactTurnstileBypass (Some h) now1 ?ts = (b, ts1)"
      by (cases "getExactTurnstileBypass (Some h) now1 ?ts")
    have ts1: "ts1 k = None" if "k \<in> set objectPrototypeKeys" for k
      using getExact_snd_None [where ts = ?ts and d' = k and hostname = "Some h" and now = now1,
          OF inv [OF that]] g by simp
    show ?thesis
    proof (cases "active b")
      case True
      with h g ts1 show ?thesis
        by (simp add: handleTurnstileDetectedMessage_def Let_def truthy_def noInheritedKeyOwned_iff)
    next
      case False
      have "h \<notin> set objectPrototypeKeys"
      proof
        assume "h \<in> set objectPrototypeKeys"
        with inv have "readTimestamp ?ts h = Inherited" by (simp add: readTimestamp_def)
        with h(2) g have "active b" by (auto simp: getExactTurnstileBypass_def)
        with False show False by contradiction
      qed
      then have "pruneExpiredTurnstileEntries now (ts1(h \<mapsto> now)) k = None"
        if "k \<in> set objectPrototypeKeys" for k
        using that ts1 [OF that] by (auto simp: pruneExpiredTurnstileEntries_def)
      with h g False show ?thesis
        by (simp add: handleTurnstileDetectedMessage_def Let_def truthy_def orEmpty_def
              noInheritedKeyOwned_iff)
    qed
  qed
  obtain r ts2 where p: "getTurnstileBypassIncludingParents ?hn nowPrune nowAt ?ts = (r, ts2)"
    by (cases "getTurnstileBypassIncludingParents ?hn nowPrune nowAt ?ts")
  have "ts2 k = None" if "k \<in> set objectPrototypeKeys" for k
    using getParents_snd_None [where ts = ?ts and d = k and hostname = ?hn and nowPrune = nowPrune
        and nowAt = nowAt, OF inv [OF that]] p by simp
  with p show "noInheritedKeyOwned
           (turnstileTimestamps (snd (handleCheckTurnstileStatusMessage parseURL rq sndr nowPrune nowAt st)))"
    by (simp add: handleCheckTurnstileStatusMessage_def Let_def noInheritedKeyOwned_iff)
qed

lemma check_run:
  assumes "resolveTabHostname parseURL sndr (req_hostname rq) = Some h" "h \<noteq> []"
  shows "handleCheckTurnstileStatusMessage parseURL rq sndr nowPrune nowAt st =
     (let r = parentsLoop (split (CHR ''.'') h) nowAt 0
                (pruneExpiredTurnstileEntries nowPrune (turnstileTimestamps st))
      in (if active (fst r)
          then \<lparr>skipUA = True, remainingSeconds = Some (ceilSeconds (remainingMs (fst r)))\<rparr>
          else \<lparr>skipUA = False, remainingSeconds = None\<rparr>,
          st\<lparr>turnstileTimestamps := snd r\<rparr>))"
  using assms
  by (simp add: handleCheckTurnstileStatusMessage_def getTurnstileBypassIncludingParents_def
        truthy_def orEmpty_def Let_def split: prod.splits)

lemma check_answer_without_expired:
  assumes "turnstileTimestamps st h = Some t0" "TURNSTILE_BYPASS_TTL_MS \<le> n - t0"
  shows "fst (handleCheckTurnstileStatusMessage parseURL rq sndr n nowAt st)
       = fst (handleCheckTurnstileStatusMessage parseURL rq sndr n nowAt
               (st\<lparr>turnstileTimestamps := (turnstileTimestamps st)(h := None)\<rparr>))"
proof (cases "truthy (resolveTabHostname parseURL sndr (req_hostname rq))")
  case False
  then show ?thesis
    by (simp add: handleCheckTurnstileStatusMessage_def getTurnstileBypassIncludingParents_def)
next
  case True
  have "pruneExpiredTurnstileEntries n ((turnstileTimestamps st)(h := None))
          = pruneExpiredTurnstileEntries n (turnstileTimestamps st)"
    using assms by (rule prune_eq_without_expired)
  with True show ?thesis
    by (simp add: handleCheckTurnstileStatusMessage_def getTurnstileBypassIncludingParents_def
          Let_def split: prod.splits)
qed

section \<open>Repeated detection\<close>

text \<open>
  Claim C2. A first \<open>turnstile-detected\<close> message for the hostname \<open>h\<close> is answered
  \<open>{success: true}\<close> and records the reading \<open>t0\<close>; a second one for \<open>h\<close> whose lookup
  reads \<open>t\<close> with \<open>t - t0\<close> below the TTL is answered \<open>{success: true, ignored: true}\<close>
  and returns the state as it was: the stored timestamp is still \<open>t0\<close> and no side effect
  is added. \<open>t0\<close> is a \<open>Date.now()\<close> reading, milliseconds since 1970 and so not 0; the
  code reads a stored 0 as no detection.
\<close>

theorem redetection_within_ttl_ignored:
  assumes "handleTurnstileDetectedMessage parseURL rq sndr n1 t0 st0 =
             (\<lparr>success = True, error = None, ignored = None\<rparr>, st1)"
    and "resolveTabHostname parseURL sndr (req_hostname rq) = Some h"
    and "resolveTabHostname parseURL sndr' (req_hostname rq') = Some h"
    and "t0 \<noteq> 0"
    and "t - t0 < TURNSTILE_BYPASS_TTL_MS"
  shows "handleTurnstileDetectedMessage parseURL rq' sndr' t t' st1 =
           (\<lparr>success = True, error = None, ignored = Some True\<rparr>, st1)
         \<and> turnstileTimestamps st1 h = Some t0"
proof -
  from detect_records [OF assms(1,2)] have h: "h \<noteq> []" and rec: "turnstileTimestamps st1 h = Some t0"
    by simp_all
  from detect_ignored_when_active [OF assms(3) h rec assms(4,5)] rec show ?thesis by simp
qed

theorem redetection_within_ttl_ignored_witness:
  "fst (handleTurnstileDetectedMessage (\<lambda>u. None) \<lparr>req_hostname = Some ''a.com''\<rparr> None
          1700000000000 1700000000000 \<lparr>turnstileTimestamps = Map.empty, effects = []\<rparr>)
     = \<lparr>success = True, error = None, ignored = None\<rparr>
   \<and> resolveTabHostname (\<lambda>u. None) None (req_hostname \<lparr>req_hostname = Some ''a.com''\<rparr>) = Some ''a.com''
   \<and> (1700000000000 :: int) \<noteq> 0
   \<and> (1700000060000 :: int) - 1700000000000 < TURNSTILE_BYPASS_TTL_MS
   \<and> handleTurnstileDetectedMessage (\<lambda>u. None) \<lparr>req_hostname = Some ''a.com''\<rparr> None
         1700000060000 1700000060001
         (snd (handleTurnstileDetectedMessage (\<lambda>u. None) \<lparr>req_hostname = Some ''a.com''\<rparr> None
          1700000000000 1700000000000 \<lparr>turnstileTimestamps = Map.empty, effects = []\<rparr>))
       = (\<lparr>success = True, error = None, ignored = Some True\<rparr>,
          snd (handleTurnstileDetectedMessage (\<lambda>u. None) \<lparr>req_hostname = Some ''a.com''\<rparr> None
          1700000000000 1700000000000 \<lparr>turnstileTimestamps = Map.empty, effects = []\<rparr>))
   \<and> turnstileTimestamps
         (snd (handleTurnstileDetectedMessage (\<lambda>u. None) \<lparr>req_hostname = Some ''a.com''\<rparr> None
          1700000000000 1700000000000 \<lparr>turnstileTimestamps = Map.empty, effects = []\<rparr>)) ''a.com''
       = Some 1700000000000
   \<and> effects
         (snd (handleTurnstileDetectedMessage (\<lambda>u. None) \<lparr>req_hostname = Some ''a.com''\<rparr> None
          1700000000000 1700000000000 \<lparr>turnstileTimestamps = Map.empty, effects = []\<rparr>))
       = [ApplyUserAgentSpoofing, SetTurnstileSessionFlagAndReload None 1700000000000]"
proof -
  let ?P = "\<lambda>u::string. None :: string option"
  let ?rq = "\<lparr>req_hostname = Some ''a.com''\<rparr>"
  let ?st0 = "\<lparr>turnstileTimestamps = Map.empty, effects = []\<rparr>"
  let ?run = "handleTurnstileDetectedMessage ?P ?rq None 1700000000000 1700000000000 ?st0"
  have r: "resolveTabHostname ?P None (req_hostname ?rq) = Some ''a.com''"
    by (simp add: resolveTabHostname_def)
  have f: "fst ?run = \<lparr>success = True, error = None, ignored = None\<rparr>"
    by (simp add: handleTurnstileDetectedMessage_def resolveTabHostname_def truthy_def
          getExactTurnstileBypass_def readTimestamp_def objectPrototypeKeys_def Let_def)
  have e: "effects (snd ?run) = [ApplyUserAgentSpoofing, SetTurnstileSessionFlagAndReload None 1700000000000]"
    by (simp add: handleTurnstileDetectedMessage_def resolveTabHostname_def truthy_def
          getExactTurnstileBypass_def readTimestamp_def objectPrototypeKeys_def Let_def)
  have first: "?run = (\<lparr>success = True, error = None, ignored = None\<rparr>, snd ?run)"
    using f by (simp add: prod_eq_iff)
  have nz: "(1700000000000 :: int) \<noteq> 0" by simp
  have lt: "(1700000060000 :: int) - 1700000000000 < TURNSTILE_BYPASS_TTL_MS"
    by (simp add: TURNSTILE_BYPASS_TTL_MS_def)
  from redetection_within_ttl_ignored [OF first r r nz lt, of 1700000060001] f r nz lt e
  show ?thesis by simp
qed

section \<open>Detection without a hostname\<close>

text \<open>
  Claim C8. When the sender's tab URL yields no hostname and the hostname of the request
  is missing or empty, the handler answers \<open>{success: false, error: "Missing hostname"}\<close>
  and returns the state as it was: no entry, no side effect.
\<close>

theorem missing_hostname_rejected:
  assumes "resolveTabHostname parseURL sndr None = None"
    and "\<not> truthy (req_hostname rq)"
  shows "handleTurnstileDetectedMessage parseURL rq sndr now1 now st =
           (\<lparr>success = False, error = Some ''Missing hostname'', ignored = None\<rparr>, st)"
  using assms(2) resolveTabHostname_fallback [OF assms(1), of "req_hostname rq"]
  by (simp add: handleTurnstileDetectedMessage_def Let_def)

theorem missing_hostname_rejected_witness:
  "resolveTabHostname (\<lambda>u. if u = ''about:blank'' then Some [] else None)
      (Some \<lparr>sender_tab = Some \<lparr>tab_url = Some ''about:blank'', tab_id = Some 7\<rparr>\<rparr>) None = None
   \<and> \<not> truthy (req_hostname \<lparr>req_hostname = Some []\<rparr>)
   \<and> handleTurnstileDetectedMessage (\<lambda>u. if u = ''about:blank'' then Some [] else None)
        \<lparr>req_hostname = Some []\<rparr>
        (Some \<lparr>sender_tab = Some \<lparr>tab_url = Some ''about:blank'', tab_id = Some 7\<rparr>\<rparr>)
        1700000000000 1700000000000
        \<lparr>turnstileTimestamps = [''a.com'' \<mapsto> 1699999990000], effects = []\<rparr>
      = (\<lparr>success = False, error = Some ''Missing hostname'', ignored = None\<rparr>,
         \<lparr>turnstileTimestamps = [''a.com'' \<mapsto> 1699999990000], effects = []\<rparr>)"
proof -
  let ?P = "\<lambda>u. if u = ''about:blank'' then Some [] else None"
  let ?s = "Some \<lparr>sender_tab = Some \<lparr>tab_url = Some ''about:blank'', tab_id = Some 7\<rparr>\<rparr>"
  have a: "resolveTabHostname ?P ?s None = None"
    by (simp add: resolveTabHostname_def getHostnameFromUrl_def truthy_def orEmpty_def)
  have b: "\<not> truthy (req_hostname \<lparr>req_hostname = Some []\<rparr>)"
    by (simp add: truthy_def)
  from missing_hostname_rejected [OF a b] a b show ?thesis by simp
qed

section \<open>Expiry\<close>

text \<open>
  Claim C3, as stated, fails for the status query. 181 s after the detection of
  \<open>sub.example.com\<close> its entry is expired, but \<open>example.com\<close> has an unexpired detection
  of its own, and the status message for \<open>sub.example.com\<close> answers \<open>skipUA\<close>, with the 99
  seconds that remain for \<open>example.com\<close>.
\<close>

theorem bypass_ttl_expiry_counterexample:
  "TURNSTILE_BYPASS_TTL_MS \<le> 1700000181000 - 1700000000000
   \<and> fst (handleCheckTurnstileStatusMessage (\<lambda>u. None) \<lparr>req_hostname = Some ''sub.example.com''\<rparr> None
            1700000181000 (\<lambda>i. 1700000181000)
            \<lparr>turnstileTimestamps =
               [''sub.example.com'' \<mapsto> 1700000000000, ''example.com'' \<mapsto> 1700000100000],
             effects = []\<rparr>)
       = \<lparr>skipUA = True, remainingSeconds = Some (Num 99)\<rparr>"
proof -
  let ?P = "\<lambda>u::string. None :: string option"
  let ?rq = "\<lparr>req_hostname = Some ''sub.example.com''\<rparr>"
  let ?ts = "[''sub.example.com'' \<mapsto> (1700000000000::int), ''example.com'' \<mapsto> 1700000100000]"
  let ?st = "\<lparr>turnstileTimestamps = ?ts, effects = []\<rparr>"
  let ?ts1 = "pruneExpiredTurnstileEntries 1700000181000 ?ts"
  let ?labels = "[''sub'', ''example'', ''com'']"
  have r: "resolveTabHostname ?P None (req_hostname ?rq) = Some ''sub.example.com''"
    by (simp add: resolveTabHostname_def)
  have sp: "split (CHR ''.'') ''sub.example.com'' = ?labels" by simp
  have ttl: "TURNSTILE_BYPASS_TTL_MS \<le> 1700000181000 - 1700000000000"
    by (simp add: TURNSTILE_BYPASS_TTL_MS_def)
  have s0: "suffixDomain ?labels 0 = ''sub.example.com''" by (simp add: suffixDomain_def)
  have s1: "suffixDomain ?labels (Suc 0) = ''example.com''" by (simp add: suffixDomain_def)
  have before: "\<not> lookupActiveAt ?ts1 1700000181000 (suffixDomain ?labels j)" if "j < Suc 0" for j
  proof -
    from that have "j = 0" by simp
    then show ?thesis
      by (simp add: s0 lookupActiveAt_def readTimestamp_def pruneExpiredTurnstileEntries_def
            objectPrototypeKeys_def TURNSTILE_BYPASS_TTL_MS_def)
  qed
  have at1: "activeAt ?ts1 1700000181000 (suffixDomain ?labels (Suc 0))"
    by (simp add: s1 activeAt_def pruneExpiredTurnstileEntries_def TURNSTILE_BYPASS_TTL_MS_def)
  have e1: "?ts1 ''example.com'' = Some 1700000100000"
    by (simp add: pruneExpiredTurnstileEntries_def TURNSTILE_BYPASS_TTL_MS_def)
  have "fst (parentsLoop ?labels (\<lambda>i. 1700000181000) 0 ?ts1) =
     \<lparr>active = True,
      remainingMs = Num (TURNSTILE_BYPASS_TTL_MS - (1700000181000 - the (?ts1 (suffixDomain ?labels (Suc 0))))),
      matchedDomain = Some (suffixDomain ?labels (Suc 0))\<rparr>"
  proof (rule parentsLoop_first_active [where labels = ?labels and nowAt = "\<lambda>i. 1700000181000"
        and k = "Suc 0" and i = 0 and ts = ?ts1])
    show "Suc 0 < length ?labels" by simp
    show "0 \<le> Suc 0" by simp
    show "\<not> lookupActiveAt ?ts1 1700000181000 (suffixDomain ?labels j)" if "0 \<le> j" "j < Suc 0" for j
      using that(2) by (rule before)
    show "activeAt ?ts1 1700000181000 (suffixDomain ?labels (Suc 0))" by (rule at1)
  qed
  then have loop: "fst (parentsLoop ?labels (\<lambda>i. 1700000181000) 0 ?ts1) =
     \<lparr>active = True, remainingMs = Num 99000, matchedDomain = Some ''example.com''\<rparr>"
    by (simp only: s1 e1 option.sel) (simp add: TURNSTILE_BYPASS_TTL_MS_def)
  have "fst (handleCheckTurnstileStatusMessage ?P ?rq None 1700000181000 (\<lambda>i. 1700000181000) ?st)
       = \<lparr>skipUA = True, remainingSeconds = Some (Num 99)\<rparr>"
    using check_run [where parseURL = ?P and sndr = None and rq = ?rq and h = "''sub.example.com''"
        and nowPrune = 1700000181000 and nowAt = "\<lambda>i. 1700000181000" and st = ?st, OF r] loop
    by (simp add: sp Let_def ceilSeconds_def)
  with ttl show ?thesis by (intro conjI)
qed

text \<open>
  Claim C3, amended. Let the dictionary hold for the hostname \<open>h\<close> the detection reading
  \<open>t0\<close> (a \<open>Date.now()\<close> reading, so not 0).

  \<^item> The exact lookup \<open>getExactTurnstileBypass\<close> of \<open>h\<close> at a reading \<open>t\<close> with \<open>t - t0\<close> at
    least the TTL answers inactive and deletes the entry of \<open>h\<close> and no other; with
    \<open>t - t0\<close> below the TTL it answers active with \<open>TTL - (t - t0)\<close> milliseconds
    remaining and changes nothing; and an exact lookup of another hostname answers the same
    after a lookup of \<open>h\<close> as before it.
  \<^item> The status message for \<open>h\<close> answers \<open>skipUA\<close> with
    \<open>remainingSeconds = ceil((TTL - elapsed) / 1000)\<close> when the entry is unexpired at the
    reading of the pruning pass and at the reading of its lookup, which is the one
    \<open>elapsed\<close> is measured at.
  \<^item> When the entry is expired at the pruning pass, the status message for \<open>h\<close> leaves no
    entry of \<open>h\<close> behind; and it answers \<open>{skipUA: false}\<close> provided that no parent domain
    of \<open>h\<close> (a label suffix other than \<open>h\<close>) has an unexpired detection of its own and no
    label suffix of \<open>h\<close> is a property name of \<open>Object.prototype\<close>.
  \<^item> Any status message whose pruning pass finds the entry of \<open>h\<close> expired is answered as
    it is from the dictionary without that entry.

  The instance that follows the theorem is the scenario: 179 s after the detection of
  \<open>a.com\<close> the answer is active with 1 second remaining, 181 s after it inactive.
\<close>

theorem bypass_ttl_expiry:
  assumes "h \<noteq> []" and "ts h = Some t0" and "t0 \<noteq> 0"
    and "resolveTabHostname parseURL sndr (req_hostname rq) = Some h"
    and "turnstileTimestamps st = ts"
  shows
   "(TURNSTILE_BYPASS_TTL_MS \<le> t - t0 \<longrightarrow>
       getExactTurnstileBypass (Some h) t ts = (\<lparr>active = False, remainingMs = Num 0\<rparr>, ts(h := None)))
    \<and> (t - t0 < TURNSTILE_BYPASS_TTL_MS \<longrightarrow>
       getExactTurnstileBypass (Some h) t ts =
         (\<lparr>active = True, remainingMs = Num (TURNSTILE_BYPASS_TTL_MS - (t - t0))\<rparr>, ts))
    \<and> (h' \<noteq> h \<longrightarrow>
       fst (getExactTurnstileBypass (Some h') t' (snd (getExactTurnstileBypass (Some h) t ts)))
         = fst (getExactTurnstileBypass (Some h') t' ts))
    \<and> (nowPrune - t0 < TURNSTILE_BYPASS_TTL_MS \<and> nowAt 0 - t0 < TURNSTILE_BYPASS_TTL_MS \<longrightarrow>
       fst (handleCheckTurnstileStatusMessage parseURL rq sndr nowPrune nowAt st) =
         \<lparr>skipUA = True,
          remainingSeconds =
            Some (Num \<lceil>real_of_int (TURNSTILE_BYPASS_TTL_MS - (nowAt 0 - t0)) / 1000\<rceil>)\<rparr>)
    \<and> (TURNSTILE_BYPASS_TTL_MS \<le> nowPrune - t0 \<longrightarrow>
       turnstileTimestamps (snd (handleCheckTurnstileStatusMessage parseURL rq sndr nowPrune nowAt st)) h = None
       \<and> ((\<forall>j. j < length (split (CHR ''.'') h) \<longrightarrow>
               suffixDomain (split (CHR ''.'') h) j \<notin> set objectPrototypeKeys)
            \<and> (\<forall>j. 0 < j \<and> j < length (split (CHR ''.'') h) \<longrightarrow>
               \<not> activeAt ts (nowAt j) (suffixDomain (split (CHR ''.'') h) j))
           \<longrightarrow> fst (handleCheckTurnstileStatusMessage parseURL rq sndr nowPrune nowAt st) =
                 \<lparr>skipUA = False, remainingSeconds = None\<rparr>))
    \<and> (TURNSTILE_BYPASS_TTL_MS \<le> nowPrune' - t0 \<longrightarrow>
       fst (handleCheckTurnstileStatusMessage parseURL rq' sndr' nowPrune' nowAt' st)
         = fst (handleCheckTurnstileStatusMessage parseURL rq' sndr' nowPrune' nowAt'
                 (st\<lparr>turnstileTimestamps := ts(h := None)\<rparr>)))"
proof -
  let ?labels = "split (CHR ''.'') h"
  let ?ts1 = "pruneExpiredTurnstileEntries nowPrune ts"
  let ?r = "parentsLoop ?labels nowAt 0 ?ts1"
  note run = check_run [OF assms(4) assms(1), of nowPrune nowAt st, unfolded assms(5)]
  have l0: "0 < length ?labels" using split_not_Nil [of "CHR ''.''" h] by simp
  have 1: "getExactTurnstileBypass (Some h) t ts = (\<lparr>active = False, remainingMs = Num 0\<rparr>, ts(h := None))"
    if "TURNSTILE_BYPASS_TTL_MS \<le> t - t0"
    using assms(1-3) that by (simp add: getExactTurnstileBypass_def readTimestamp_def)
  have 2: "getExactTurnstileBypass (Some h) t ts =
         (\<lparr>active = True, remainingMs = Num (TURNSTILE_BYPASS_TTL_MS - (t - t0))\<rparr>, ts)"
    if "t - t0 < TURNSTILE_BYPASS_TTL_MS"
    using assms(1-3) that by (simp add: getExactTurnstileBypass_def readTimestamp_def)
  have 3: "fst (getExactTurnstileBypass (Some h') t' (snd (getExactTurnstileBypass (Some h) t ts)))
         = fst (getExactTurnstileBypass (Some h') t' ts)" if "h' \<noteq> h"
    using that by (rule getExact_fst_other)
  have 4: "fst (handleCheckTurnstileStatusMessage parseURL rq sndr nowPrune nowAt st) =
         \<lparr>skipUA = True,
          remainingSeconds =
            Some (Num \<lceil>real_of_int (TURNSTILE_BYPASS_TTL_MS - (nowAt 0 - t0)) / 1000\<rceil>)\<rparr>"
    if a: "nowPrune - t0 < TURNSTILE_BYPASS_TTL_MS" and b: "nowAt 0 - t0 < TURNSTILE_BYPASS_TTL_MS"
  proof -
    have act: "activeAt ?ts1 (nowAt 0) (suffixDomain ?labels 0)"
      unfolding suffixDomain_0 using assms(1-3) a b by (rule activeAt_pruned(1))
    have entry: "?ts1 h = Some t0"
      using assms(1-3) a b by (rule activeAt_pruned(2))
    have "fst ?r =
       \<lparr>active = True,
        remainingMs = Num (TURNSTILE_BYPASS_TTL_MS - (nowAt 0 - the (?ts1 (suffixDomain ?labels 0)))),
        matchedDomain = Some (suffixDomain ?labels 0)\<rparr>"
      using l0 _ _ act by (rule parentsLoop_first_active) simp_all
    then have "fst ?r = \<lparr>active = True, remainingMs = Num (TURNSTILE_BYPASS_TTL_MS - (nowAt 0 - t0)),
        matchedDomain = Some h\<rparr>"
      by (simp add: suffixDomain_0 entry)
    then show ?thesis by (simp add: run Let_def ceilSeconds_def)
  qed
  have 5: "turnstileTimestamps (snd (handleCheckTurnstileStatusMessage parseURL rq sndr nowPrune nowAt st)) h = None"
    if a: "TURNSTILE_BYPASS_TTL_MS \<le> nowPrune - t0"
  proof -
    have "?ts1 h = None" using assms(2) a by (rule prune_expired)
    then have "snd ?r h = None" by (rule parentsLoop_snd_None)
    then show ?thesis by (simp add: run Let_def)
  qed
  have 6: "fst (handleCheckTurnstileStatusMessage parseURL rq sndr nowPrune nowAt st) =
                 \<lparr>skipUA = False, remainingSeconds = None\<rparr>"
    if a: "TURNSTILE_BYPASS_TTL_MS \<le> nowPrune - t0"
      and own: "\<forall>j. j < length ?labels \<longrightarrow> suffixDomain ?labels j \<notin> set objectPrototypeKeys"
      and none: "\<forall>j. 0 < j \<and> j < length ?labels \<longrightarrow> \<not> activeAt ts (nowAt j) (suffixDomain ?labels j)"
  proof -
    have gone: "?ts1 h = None" using assms(2) a by (rule prune_expired)
    have "fst ?r = \<lparr>active = False, remainingMs = Num 0, matchedDomain = None\<rparr>"
    proof (rule parentsLoop_none_active)
      fix j assume j: "0 \<le> j" "j < length ?labels"
      from own j(2) have nk: "suffixDomain ?labels j \<notin> set objectPrototypeKeys" by simp
      show "\<not> lookupActiveAt ?ts1 (nowAt j) (suffixDomain ?labels j)"
      proof (cases "j = 0")
        case True
        with gone nk show ?thesis
          by (simp add: suffixDomain_0 lookupActiveAt_def readTimestamp_def)
      next
        case False
        with none j have "\<not> activeAt ts (nowAt j) (suffixDomain ?labels j)" by simp
        then show ?thesis using nk by (rule lookup_pruned_inactive)
      qed
    qed
    then show ?thesis by (simp add: run Let_def)
  qed
  have 7: "fst (handleCheckTurnstileStatusMessage parseURL rq' sndr' nowPrune' nowAt' st)
         = fst (handleCheckTurnstileStatusMessage parseURL rq' sndr' nowPrune' nowAt'
                 (st\<lparr>turnstileTimestamps := ts(h := None)\<rparr>))"
    if a: "TURNSTILE_BYPASS_TTL_MS \<le> nowPrune' - t0"
  proof -
    have e: "turnstileTimestamps st h = Some t0" using assms(2,5) by simp
    show ?thesis
      using check_answer_without_expired [where st = st and h = h and ?t0.0 = t0 and n = nowPrune'
          and parseURL = parseURL and rq = rq' and sndr = sndr' and nowAt = nowAt', OF e a]
      by (simp add: assms(5))
  qed
  from 1 2 3 4 5 6 7 show ?thesis by blast
qed

theorem bypass_ttl_expiry_witness:
  "resolveTabHostname (\<lambda>u. None) None (req_hostname \<lparr>req_hostname = Some ''a.com''\<rparr>) = Some ''a.com''
   \<and> [''a.com'' \<mapsto> (1700000000000::int)] ''a.com'' = Some 1700000000000
   \<and> getExactTurnstileBypass (Some ''a.com'') 1700000181000 [''a.com'' \<mapsto> 1700000000000]
       = (\<lparr>active = False, remainingMs = Num 0\<rparr>, [''a.com'' \<mapsto> 1700000000000](''a.com'' := None))
   \<and> getExactTurnstileBypass (Some ''a.com'') 1700000179000 [''a.com'' \<mapsto> 1700000000000]
       = (\<lparr>active = True, remainingMs = Num 1000\<rparr>, [''a.com'' \<mapsto> 1700000000000])
   \<and> fst (handleCheckTurnstileStatusMessage (\<lambda>u. None) \<lparr>req_hostname = Some ''a.com''\<rparr> None
            1700000179000 (\<lambda>i. 1700000179000)
            \<lparr>turnstileTimestamps = [''a.com'' \<mapsto> 1700000000000], effects = []\<rparr>)
       = \<lparr>skipUA = True, remainingSeconds = Some (Num 1)\<rparr>
   \<and> fst (handleCheckTurnstileStatusMessage (\<lambda>u. None) \<lparr>req_hostname = Some ''a.com''\<rparr> None
            1700000181000 (\<lambda>i. 1700000181000)
            \<lparr>turnstileTimestamps = [''a.com'' \<mapsto> 1700000000000], effects = []\<rparr>)
       = \<lparr>skipUA = False, remainingSeconds = None\<rparr>
   \<and> turnstileTimestamps (snd (handleCheckTurnstileStatusMessage (\<lambda>u. None)
            \<lparr>req_hostname = Some ''a.com''\<rparr> None 1700000181000 (\<lambda>i. 1700000181000)
            \<lparr>turnstileTimestamps = [''a.com'' \<mapsto> 1700000000000], effects = []\<rparr>)) ''a.com'' = None
   \<and> ''b.com'' \<noteq> ''a.com''
   \<and> fst (getExactTurnstileBypass (Some ''b.com'') 1700000181000
            (snd (getExactTurnstileBypass (Some ''a.com'') 1700000181000
                    [''a.com'' \<mapsto> 1700000000000, ''b.com'' \<mapsto> 1700000100000])))
       = \<lparr>active = True, remainingMs = Num 99000\<rparr>
   \<and> fst (handleCheckTurnstileStatusMessage (\<lambda>u. None) \<lparr>req_hostname = Some ''b.com''\<rparr> None
            1700000181000 (\<lambda>i. 1700000181000)
            \<lparr>turnstileTimestamps = [''a.com'' \<mapsto> 1700000000000, ''b.com'' \<mapsto> 1700000100000],
             effects = []\<rparr>)
       = fst (handleCheckTurnstileStatusMessage (\<lambda>u. None) \<lparr>req_hostname = Some ''b.com''\<rparr> None
            1700000181000 (\<lambda>i. 1700000181000)
            \<lparr>turnstileTimestamps =
               [''a.com'' \<mapsto> 1700000000000, ''b.com'' \<mapsto> 1700000100000](''a.com'' := None),
             effects = []\<rparr>)"
proof -
  let ?P = "\<lambda>u::string. None :: string option"
  let ?rq = "\<lparr>req_hostname = Some ''a.com''\<rparr>"
  let ?ts = "[''a.com'' \<mapsto> (1700000000000::int)]"
  let ?st = "\<lparr>turnstileTimestamps = ?ts, effects = []\<rparr>"
  have ne: "''a.com'' \<noteq> []" by simp
  have e: "?ts ''a.com'' = Some 1700000000000" by simp
  have nz: "(1700000000000::int) \<noteq> 0" by simp
  have r: "resolveTabHostname ?P None (req_hostname ?rq) = Some ''a.com''"
    by (simp add: resolveTabHostname_def)
  have st: "turnstileTimestamps ?st = ?ts" by simp
  have sp: "split (CHR ''.'') ''a.com'' = [''a'', ''com'']" by simp
  have none: "\<forall>j. 0 < j \<and> j < length (split (CHR ''.'') ''a.com'') \<longrightarrow>
      \<not> activeAt ?ts 1700000181000 (suffixDomain (split (CHR ''.'') ''a.com'') j)"
  proof (intro allI impI)
    fix j :: nat assume "0 < j \<and> j < length (split (CHR ''.'') ''a.com'')"
    then have "j = 1" unfolding sp by simp
    then show "\<not> activeAt ?ts 1700000181000 (suffixDomain (split (CHR ''.'') ''a.com'') j)"
      unfolding sp by (simp add: activeAt_def suffixDomain_def)
  qed
  have own: "\<forall>j. j < length (split (CHR ''.'') ''a.com'') \<longrightarrow>
      suffixDomain (split (CHR ''.'') ''a.com'') j \<notin> set objectPrototypeKeys"
  proof (intro allI impI)
    fix j :: nat assume "j < length (split (CHR ''.'') ''a.com'')"
    then have "j = 0 \<or> j = 1" unfolding sp by auto
    then show "suffixDomain (split (CHR ''.'') ''a.com'') j \<notin> set objectPrototypeKeys"
      unfolding sp by (auto simp: suffixDomain_def objectPrototypeKeys_def)
  qed
  note late = bypass_ttl_expiry [where h = "''a.com''" and ts = ?ts and ?t0.0 = 1700000000000
      and parseURL = ?P and sndr = None and rq = ?rq and st = ?st
      and t = 1700000181000 and nowPrune = 1700000181000 and nowAt = "\<lambda>i. 1700000181000",
      OF ne e nz r st]
  note early = bypass_ttl_expiry [where h = "''a.com''" and ts = ?ts and ?t0.0 = 1700000000000
      and parseURL = ?P and sndr = None and rq = ?rq and st = ?st
      and t = 1700000179000 and nowPrune = 1700000179000 and nowAt = "\<lambda>i. 1700000179000",
      OF ne e nz r st]
  from late none own have l:
    "getExactTurnstileBypass (Some ''a.com'') 1700000181000 ?ts
       = (\<lparr>active = False, remainingMs = Num 0\<rparr>, ?ts(''a.com'' := None))"
    "fst (handleCheckTurnstileStatusMessage ?P ?rq None 1700000181000 (\<lambda>i. 1700000181000) ?st)
       = \<lparr>skipUA = False, remainingSeconds = None\<rparr>"
    "turnstileTimestamps (snd (handleCheckTurnstileStatusMessage ?P ?rq None 1700000181000
        (\<lambda>i. 1700000181000) ?st)) ''a.com'' = None"
    by (simp_all add: TURNSTILE_BYPASS_TTL_MS_def)
  from early have m:
    "getExactTurnstileBypass (Some ''a.com'') 1700000179000 ?ts
       = (\<lparr>active = True, remainingMs = Num 1000\<rparr>, ?ts)"
    "fst (handleCheckTurnstileStatusMessage ?P ?rq None 1700000179000 (\<lambda>i. 1700000179000) ?st)
       = \<lparr>skipUA = True, remainingSeconds = Some (Num 1)\<rparr>"
    by (simp_all add: TURNSTILE_BYPASS_TTL_MS_def)
  let ?ts2 = "[''a.com'' \<mapsto> (1700000000000::int), ''b.com'' \<mapsto> 1700000100000]"
  let ?st2 = "\<lparr>turnstileTimestamps = ?ts2, effects = []\<rparr>"
  have e2: "?ts2 ''a.com'' = Some 1700000000000" by simp
  have st2: "turnstileTimestamps ?st2 = ?ts2" by simp
  have d: "''b.com'' \<noteq> ''a.com''" by simp
  have b: "fst (getExactTurnstileBypass (Some ''b.com'') 1700000181000 ?ts2)
             = \<lparr>active = True, remainingMs = Num 99000\<rparr>"
    by (simp add: getExactTurnstileBypass_def readTimestamp_def TURNSTILE_BYPASS_TTL_MS_def)
  note other = bypass_ttl_expiry [where h = "''a.com''" and ts = ?ts2 and ?t0.0 = 1700000000000
      and parseURL = ?P and sndr = None and rq = ?rq and st = ?st2
      and t = 1700000181000 and h' = "''b.com''" and t' = 1700000181000
      and rq' = "\<lparr>req_hostname = Some ''b.com''\<rparr>" and sndr' = None
      and nowPrune' = 1700000181000 and nowAt' = "\<lambda>i. 1700000181000", OF ne e2 nz r st2]
  have ttl: "TURNSTILE_BYPASS_TTL_MS \<le> 1700000181000 - 1700000000000"
    by (simp add: TURNSTILE_BYPASS_TTL_MS_def)
  from other ttl have q:
    "fst (handleCheckTurnstileStatusMessage ?P \<lparr>req_hostname = Some ''b.com''\<rparr> None
            1700000181000 (\<lambda>i. 1700000181000) ?st2)
       = fst (handleCheckTurnstileStatusMessage ?P \<lparr>req_hostname = Some ''b.com''\<rparr> None
            1700000181000 (\<lambda>i. 1700000181000)
            \<lparr>turnstileTimestamps = ?ts2(''a.com'' := None), effects = []\<rparr>)"
    by simp
  from other d have "fst (getExactTurnstileBypass (Some ''b.com'') 1700000181000
            (snd (getExactTurnstileBypass (Some ''a.com'') 1700000181000 ?ts2)))
       = fst (getExactTurnstileBypass (Some ''b.com'') 1700000181000 ?ts2)"
    by blast
  with b have o: "fst (getExactTurnstileBypass (Some ''b.com'') 1700000181000
            (snd (getExactTurnstileBypass (Some ''a.com'') 1700000181000 ?ts2)))
       = \<lparr>active = True, remainingMs = Num 99000\<rparr>"
    by simp
  show ?thesis
    using r e l(1) m(1) m(2) l(2) l(3) d o q by (intro conjI)
qed

section \<open>Parent domains\<close>

text \<open>
  Claim C4. Let \<open>hostname\<close> be \<open>sub.ancestor\<close>, where \<open>ancestor\<close> has a detection that is
  unexpired at the readings of the pruning pass and of its lookup. Then
  \<open>getTurnstileBypassIncludingParents\<close> answers active; the matched domain is the first
  label suffix of the hostname, from the hostname itself towards the root, that has an
  unexpired detection, with the remaining TTL of that detection; and when no suffix longer
  than \<open>ancestor\<close> has one, the matched domain is \<open>ancestor\<close> and the remaining time is that
  of its detection. The instance that follows the theorem is \<open>sub.example.com\<close> after a
  detection of \<open>example.com\<close>.
\<close>

theorem ancestor_bypass_propagates:
  assumes "hostname = sub @ ''.'' @ ancestor"
    and "ancestor \<noteq> []"
    and "ts ancestor = Some t0"
    and "t0 \<noteq> 0"
    and "nowPrune - t0 < TURNSTILE_BYPASS_TTL_MS"
    and "nowAt (length (split (CHR ''.'') sub)) - t0 < TURNSTILE_BYPASS_TTL_MS"
  shows "(\<exists>j \<le> length (split (CHR ''.'') sub). \<exists>tj.
            ts (suffixDomain (split (CHR ''.'') hostname) j) = Some tj
            \<and> tj \<noteq> 0 \<and> nowAt j - tj < TURNSTILE_BYPASS_TTL_MS
            \<and> fst (getTurnstileBypassIncludingParents (Some hostname) nowPrune nowAt ts) =
                \<lparr>active = True,
                 remainingMs = Num (TURNSTILE_BYPASS_TTL_MS - (nowAt j - tj)),
                 matchedDomain = Some (suffixDomain (split (CHR ''.'') hostname) j)\<rparr>)
    \<and> ((\<forall>j < length (split (CHR ''.'') sub).
            \<not> activeAt ts (nowAt j) (suffixDomain (split (CHR ''.'') hostname) j))
        \<longrightarrow> fst (getTurnstileBypassIncludingParents (Some hostname) nowPrune nowAt ts) =
              \<lparr>active = True,
               remainingMs = Num (TURNSTILE_BYPASS_TTL_MS - (nowAt (length (split (CHR ''.'') sub)) - t0)),
               matchedDomain = Some ancestor\<rparr>)"
proof -
  let ?labels = "split (CHR ''.'') hostname"
  let ?k = "length (split (CHR ''.'') sub)"
  let ?ts1 = "pruneExpiredTurnstileEntries nowPrune ts"
  have k: "?k < length ?labels"
    unfolding assms(1) by (rule length_split_subdomain)
  have anc: "suffixDomain ?labels ?k = ancestor"
    unfolding assms(1) by (rule suffixDomain_subdomain)
  have atk: "activeAt ?ts1 (nowAt ?k) (suffixDomain ?labels ?k)"
    unfolding anc using assms(2-6) by (rule activeAt_pruned(1))
  have entry: "?ts1 ancestor = Some t0"
    using assms(2-6) by (rule activeAt_pruned(2))
  have own: "suffixDomain ?labels j \<notin> set objectPrototypeKeys" if "j < ?k" for j
    using that k by (intro suffixDomain_not_inherited) simp
  have run: "getTurnstileBypassIncludingParents (Some hostname) nowPrune nowAt ts
               = parentsLoop ?labels nowAt 0 ?ts1"
    using assms(1) by (simp add: getTurnstileBypassIncludingParents_def truthy_def orEmpty_def)
  obtain j where j: "j \<le> ?k" "activeAt ?ts1 (nowAt j) (suffixDomain ?labels j)"
      "fst (parentsLoop ?labels nowAt 0 ?ts1) =
         \<lparr>active = True,
          remainingMs = Num (TURNSTILE_BYPASS_TTL_MS - (nowAt j - the (?ts1 (suffixDomain ?labels j)))),
          matchedDomain = Some (suffixDomain ?labels j)\<rparr>"
    using parentsLoop_some_active [where labels = ?labels and ts = ?ts1 and nowAt = nowAt and k = ?k,
        OF k atk own] by blast
  obtain tj where tj: "ts (suffixDomain ?labels j) = Some tj" "?ts1 (suffixDomain ?labels j) = Some tj"
      "tj \<noteq> 0" "nowAt j - tj < TURNSTILE_BYPASS_TTL_MS"
    using activeAt_pruned_entry [OF j(2)] by blast
  have some: "\<exists>j \<le> ?k. \<exists>tj.
            ts (suffixDomain ?labels j) = Some tj
            \<and> tj \<noteq> 0 \<and> nowAt j - tj < TURNSTILE_BYPASS_TTL_MS
            \<and> fst (parentsLoop ?labels nowAt 0 ?ts1) =
                \<lparr>active = True,
                 remainingMs = Num (TURNSTILE_BYPASS_TTL_MS - (nowAt j - tj)),
                 matchedDomain = Some (suffixDomain ?labels j)\<rparr>"
    using j(1,3) tj by (intro exI [of _ j] exI [of _ tj]) simp
  have first: "fst (parentsLoop ?labels nowAt 0 ?ts1) =
              \<lparr>active = True,
               remainingMs = Num (TURNSTILE_BYPASS_TTL_MS - (nowAt ?k - t0)),
               matchedDomain = Some ancestor\<rparr>"
    if none: "\<forall>j < ?k. \<not> activeAt ts (nowAt j) (suffixDomain ?labels j)"
  proof -
    have "fst (parentsLoop ?labels nowAt 0 ?ts1) =
       \<lparr>active = True,
        remainingMs = Num (TURNSTILE_BYPASS_TTL_MS - (nowAt ?k - the (?ts1 (suffixDomain ?labels ?k)))),
        matchedDomain = Some (suffixDomain ?labels ?k)\<rparr>"
    proof (rule parentsLoop_first_active)
      show "?k < length ?labels" by (rule k)
      show "0 \<le> ?k" by simp
      show "\<not> lookupActiveAt ?ts1 (nowAt j) (suffixDomain ?labels j)" if "0 \<le> j" "j < ?k" for j
        using none that(2) own [OF that(2)] by (intro lookup_pruned_inactive) blast+
      show "activeAt ?ts1 (nowAt ?k) (suffixDomain ?labels ?k)" by (rule atk)
    qed
    then show ?thesis by (simp add: anc entry)
  qed
  show ?thesis unfolding run using some first by blast
qed

theorem ancestor_bypass_propagates_witness:
  "''sub.example.com'' = ''sub'' @ ''.'' @ ''example.com''
   \<and> [''example.com'' \<mapsto> (1700000000000::int)] ''example.com'' = Some 1700000000000
   \<and> (1700000100000::int) - 1700000000000 < TURNSTILE_BYPASS_TTL_MS
   \<and> length (split (CHR ''.'') ''sub'') = 1
   \<and> \<not> activeAt [''example.com'' \<mapsto> 1700000000000] 1700000100000
         (suffixDomain (split (CHR ''.'') ''sub.example.com'') 0)
   \<and> fst (getTurnstileBypassIncludingParents (Some ''sub.example.com'') 1700000100000
            (\<lambda>i. 1700000100000) [''example.com'' \<mapsto> 1700000000000])
       = \<lparr>active = True, remainingMs = Num 80000, matchedDomain = Some ''example.com''\<rparr>"
proof -
  let ?ts = "[''example.com'' \<mapsto> (1700000000000::int)]"
  have h: "''sub.example.com'' = ''sub'' @ ''.'' @ ''example.com''" by simp
  have ne: "''example.com'' \<noteq> []" by simp
  have e: "?ts ''example.com'' = Some 1700000000000" by simp
  have nz: "(1700000000000::int) \<noteq> 0" by simp
  have lt: "(1700000100000::int) - 1700000000000 < TURNSTILE_BYPASS_TTL_MS"
    by (simp add: TURNSTILE_BYPASS_TTL_MS_def)
  have sp: "split (CHR ''.'') ''sub'' = [''sub'']" by simp
  have sd: "suffixDomain (split (CHR ''.'') ''sub.example.com'') 0 = ''sub.example.com''"
    by (rule suffixDomain_0)
  have none: "\<forall>j < length (split (CHR ''.'') ''sub'').
         \<not> activeAt ?ts 1700000100000 (suffixDomain (split (CHR ''.'') ''sub.example.com'') j)"
  proof (intro allI impI)
    fix j :: nat assume "j < length (split (CHR ''.'') ''sub'')"
    then have "j = 0" unfolding sp by simp
    with sd show "\<not> activeAt ?ts 1700000100000 (suffixDomain (split (CHR ''.'') ''sub.example.com'') j)"
      by (simp add: activeAt_def)
  qed
  note inst = ancestor_bypass_propagates [where nowAt = "\<lambda>i. 1700000100000" and nowPrune = 1700000100000
      and hostname = "''sub.example.com''" and sub = "''sub''" and ancestor = "''example.com''"
      and ts = ?ts and ?t0.0 = 1700000000000,
      OF h ne e nz lt lt]
  from inst have "(\<forall>j < length (split (CHR ''.'') ''sub'').
         \<not> activeAt ?ts 1700000100000 (suffixDomain (split (CHR ''.'') ''sub.example.com'') j))
     \<longrightarrow> fst (getTurnstileBypassIncludingParents (Some ''sub.example.com'') 1700000100000
            (\<lambda>i. 1700000100000) ?ts)
       = \<lparr>active = True, remainingMs = Num (TURNSTILE_BYPASS_TTL_MS - (1700000100000 - 1700000000000)),
          matchedDomain = Some ''example.com''\<rparr>"
    by (rule conjunct2)
  with none have "fst (getTurnstileBypassIncludingParents (Some ''sub.example.com'') 1700000100000
            (\<lambda>i. 1700000100000) ?ts)
       = \<lparr>active = True, remainingMs = Num (TURNSTILE_BYPASS_TTL_MS - (1700000100000 - 1700000000000)),
          matchedDomain = Some ''example.com''\<rparr>"
    by (rule rev_mp)
  then have res: "fst (getTurnstileBypassIncludingParents (Some ''sub.example.com'') 1700000100000
            (\<lambda>i. 1700000100000) ?ts)
       = \<lparr>active = True, remainingMs = Num 80000, matchedDomain = Some ''example.com''\<rparr>"
    by (simp add: TURNSTILE_BYPASS_TTL_MS_def)
  have n0: "\<not> activeAt ?ts 1700000100000 (suffixDomain (split (CHR ''.'') ''sub.example.com'') 0)"
    using none unfolding sp by simp
  have len: "length (split (CHR ''.'') ''sub'') = 1" by simp
  show ?thesis
    using h e lt len n0 res by (intro conjI)
qed

end
